theory Spec2Isabelle
  imports Main
begin

section \<open>JavaScript values read by the manager\<close>

text \<open>
  A JavaScript string is a sequence of UTF-16 code units; each unit is a natural number.
  \<open>str\<close> turns an ASCII literal into such a sequence.
\<close>

type_synonym jsstring = "nat list"

definition str :: "string \<Rightarrow> jsstring" where
  "str s = map of_char s"

text \<open>
  One table of \<open>config.tables\<close>: \<open>{name, schema, url: {root, endpoint}}\<close>, and the
  configuration object \<open>{name, version, tables}\<close>. The constructor asks only for an
  object with a key, so \<open>tables\<close> may be missing (\<open>None\<close>); a version that is missing
  or not a positive number reads as 0.
\<close>

record tableSpec =
  tname :: jsstring
  tschema :: jsstring
  root :: jsstring
  endpoint :: jsstring

record storeConfig =
  cname :: jsstring
  cversion :: nat
  ctables :: "tableSpec list option"

text \<open>
  The values the constructor can be handed. Only what the constructor inspects is kept:
  the type tag, truthiness, for a string its code units, and for an object (an array is
  one) its own enumerable keys together with its reading as a configuration. A symbol or
  a bigint passes through the checks as a number does.
\<close>

datatype jsval =
    JUndefined
  | JNull
  | JBool bool
  | JNum int
  | JStr jsstring
  | JFun
  | JObj "jsstring list" storeConfig

fun typeOf :: "jsval \<Rightarrow> string" where
  "typeOf JUndefined = ''undefined''"
| "typeOf JNull = ''object''"
| "typeOf (JBool _) = ''boolean''"
| "typeOf (JNum _) = ''number''"
| "typeOf (JStr _) = ''string''"
| "typeOf JFun = ''function''"
| "typeOf (JObj _ _) = ''object''"

text \<open>\<open>v == null\<close>: true of \<open>null\<close> and \<open>undefined\<close> only.\<close>

fun looseNull :: "jsval \<Rightarrow> bool" where
  "looseNull JUndefined = True"
| "looseNull JNull = True"
| "looseNull _ = False"

text \<open>\<open>!v\<close> is \<open>\<not> truthy v\<close>.\<close>

fun truthy :: "jsval \<Rightarrow> bool" where
  "truthy JUndefined = False"
| "truthy JNull = False"
| "truthy (JBool b) = b"
| "truthy (JNum n) = (n \<noteq> 0)"
| "truthy (JStr s) = (s \<noteq> [])"
| "truthy JFun = True"
| "truthy (JObj _ _) = True"

fun objectKeys :: "jsval \<Rightarrow> jsstring list" where
  "objectKeys (JObj ks _) = ks"
| "objectKeys _ = []"

text \<open>
  \<open>String.prototype.trim\<close> strips WhiteSpace and LineTerminator code units from both
  ends: TAB, LF, VT, FF, CR, SP, NBSP, U+1680, U+2000..U+200A, LS, PS, U+202F, U+205F,
  U+3000 and the BOM.
\<close>

definition isWhiteSpace :: "nat \<Rightarrow> bool" where
  "isWhiteSpace c \<longleftrightarrow>
     c \<in> {9, 10, 11, 12, 13, 32, 160, 5760, 8232, 8233, 8239, 8287, 12288, 65279}
     \<or> (8192 \<le> c \<and> c \<le> 8202)"

definition trim :: "jsstring \<Rightarrow> jsstring" where
  "trim s = rev (dropWhile isWhiteSpace (rev (dropWhile isWhiteSpace s)))"

section \<open>Events, effects and errors\<close>

text \<open>
  The custom events of the manager, with the fields of \<open>event.detail\<close>. The
  \<open>progress\<close> field of \<open>database:progress\<close> is the string \<open>toFixed(2)\<close> returns.
\<close>

datatype event =
    BeforeCreate jsstring
  | AfterCreate jsstring
  | LocaleChanged jsstring jsstring
  | BeforeConnect jsstring
  | AfterConnect jsstring
  | BeforeDelete jsstring
  | AfterDelete jsstring
  | BeforeRefresh jsstring
  | AfterRefresh jsstring
  | Progress nat nat jsstring jsstring
  | Ready

text \<open>A stored record \<open>{id: record.id, meta: record}\<close>; a remote member is its id and its body.\<close>

type_synonym member = "nat \<times> jsstring"

record stored =
  sid :: nat
  meta :: member

text \<open>
  Everything the manager does to the outside, in program order: events dispatched on the
  event target, Dexie calls and network requests. \<open>Stores\<close> is a call of
  \<open>version(v).stores(tables)\<close> that Dexie accepted, with the version and the object
  \<open>tables\<close> (schema by table name).
\<close>

datatype action =
    NewEventTarget
  | Dispatch event
  | NewDexie jsstring
  | DexieDelete
  | Stores nat "jsstring \<rightharpoonup> jsstring"
  | DexieOpen
  | Fetch jsstring
  | TableAdd jsstring stored
  | ConsoleError jsstring
  | Delay nat

text \<open>
  Every \<open>throw new Error(...)\<close> of the class is a constructor named after its message; the
  wrappers carry the error whose message they append. \<open>Thrown\<close> is an error raised by
  Dexie, by \<open>fetch\<close> or by the runtime.
\<close>

datatype err =
    ConfigInvalid
  | DbLocaleInvalid
  | UserLocaleInvalid
  | NoDatabaseToDelete
  | NoDatabaseToRefresh
  | NoDatabase
  | Thrown jsstring
  | DeleteFailed err
  | RefreshFailed err
  | ConnectFailed err
  | InitializeFailed err

section \<open>The manager and its surroundings\<close>

text \<open>
  A Dexie handle: the database name and the table names given to \<open>version().stores()\<close>.
  The Dexie object behind it is fresh (\<open>new Dexie\<close>, opened by Dexie at its first use),
  opened, closed (\<open>delete()\<close> closes it before it deletes, also when the deletion then
  fails), or failed to open.
\<close>

record handle =
  hname :: jsstring
  hbound :: "jsstring list"

datatype status = Fresh | Opened | Closed | Failed jsstring

text \<open>
  The fields of \<open>this\<close> after construction, the condition of the Dexie object \<open>this.db\<close>
  refers to, the records IndexedDB holds per table name, and the log of effects so far.
\<close>

record state =
  config :: storeConfig
  dbLocale :: jsstring
  userLocale :: jsstring
  thisLocale :: "jsstring option"
  db :: "handle option"
  dbStatus :: status
  idb :: "jsstring \<Rightarrow> stored list"
  log :: "action list"

text \<open>
  What \<open>fetch(url)\<close> and \<open>response.json()\<close> give: a rejected request, a body that is
  not JSON, or the parsed body. Of the body only what \<open>fetchTable\<close> reads is kept:
  whether it is \<open>null\<close>, its \<open>member\<close> list when it has one, and its \<open>view\<close> with that
  one's \<open>next\<close>, each when present. A body that is a number, a string or an array reads
  as one without \<open>member\<close> and \<open>view\<close>.
\<close>

datatype body =
    BNull
  | BData "member list option" "jsstring option option"

datatype response = NetworkError jsstring | NotJson jsstring | Json body

text \<open>
  What the manager cannot decide by itself during one run: what the remote answers to a
  request (a function of the URL for the length of the run), whether \<open>db.delete()\<close> and
  \<open>db.open()\<close> reject (\<open>Some\<close> message), whether Dexie refuses the object given to
  \<open>stores\<close> (\<open>Some\<close> message), which names besides \<open>name\<close>, \<open>version\<close>, \<open>open\<close> and
  \<open>delete\<close> are members of a Dexie instance, and what a table holds after \<open>add\<close> was
  called on it (Dexie decides that: a key that exists already is refused).
\<close>

record env =
  remote :: "jsstring \<Rightarrow> response"
  deleteRejects :: "jsstring option"
  openRejects :: "jsstring option"
  schemaRejects :: "(jsstring \<rightharpoonup> jsstring) \<Rightarrow> jsstring option"
  otherMember :: "jsstring \<Rightarrow> bool"
  addRec :: "stored list \<Rightarrow> stored \<Rightarrow> stored list"

type_synonym 'a res = "(err + 'a) \<times> state"

definition act :: "action \<Rightarrow> state \<Rightarrow> state" where
  "act a s = s\<lparr>log := log s @ [a]\<rparr>"

definition dispatchEvent :: "event \<Rightarrow> state \<Rightarrow> state" where
  "dispatchEvent e s = act (Dispatch e) s"

section \<open>The constructor\<close>

text \<open>
  The checks run in source order and the first failing one throws. The second component
  of the result is what the constructor has created by then; \<open>disk\<close> is what IndexedDB
  holds when the manager is made.
\<close>

definition localeInvalid :: "jsval \<Rightarrow> bool" where
  "localeInvalid v \<longleftrightarrow>
     \<not> truthy v \<or> typeOf v \<noteq> ''string'' \<or> (case v of JStr s \<Rightarrow> trim s = [] | _ \<Rightarrow> True)"

definition configInvalid :: "jsval \<Rightarrow> bool" where
  "configInvalid c \<longleftrightarrow> looseNull c \<or> typeOf c \<noteq> ''object'' \<or> length (objectKeys c) = 0"

fun asConfig :: "jsval \<Rightarrow> storeConfig" where
  "asConfig (JObj _ c) = c"
| "asConfig _ = \<lparr>cname = [], cversion = 0, ctables = None\<rparr>"

fun asString :: "jsval \<Rightarrow> jsstring" where
  "asString (JStr s) = s"
| "asString _ = []"

definition constructor ::
  "(jsstring \<Rightarrow> stored list) \<Rightarrow> jsval \<Rightarrow> jsval \<Rightarrow> jsval \<Rightarrow> (err + state) \<times> action list" where
  "constructor disk cfg dbl usl =
     (if configInvalid cfg then (Inl ConfigInvalid, [NewEventTarget])
      else if localeInvalid dbl then (Inl DbLocaleInvalid, [NewEventTarget])
      else if localeInvalid usl then (Inl UserLocaleInvalid, [NewEventTarget])
      else (Inr \<lparr>config = asConfig cfg, dbLocale = asString dbl, userLocale = asString usl,
                 thisLocale = None, db = None, dbStatus = Fresh, idb = disk,
                 log = [NewEventTarget]\<rparr>,
            [NewEventTarget]))"

section \<open>Deleting the database\<close>

text \<open>
  The whole body is inside \<open>try\<close>, so the missing-handle error is re-thrown by the
  \<open>catch\<close> with the deletion prefix, like a rejection of \<open>db.delete()\<close>. Dexie closes
  the object when \<open>delete()\<close> is called; a successful delete empties every table.
\<close>

definition deleteDatabase :: "env \<Rightarrow> state \<Rightarrow> unit res" where
  "deleteDatabase ev s =
     (case db s of
        None \<Rightarrow> (Inl (DeleteFailed NoDatabaseToDelete), s)
      | Some h \<Rightarrow>
          (let s1 = (act DexieDelete (dispatchEvent (BeforeDelete (hname h)) s))
                      \<lparr>dbStatus := Closed\<rparr> in
           case deleteRejects ev of
             Some m \<Rightarrow> (Inl (DeleteFailed (Thrown m)), s1)
           | None \<Rightarrow>
               (let s2 = dispatchEvent (AfterDelete (hname h)) (s1\<lparr>idb := (\<lambda>_. [])\<rparr>)
                in (Inr (), s2\<lparr>db := None\<rparr>))))"

section \<open>Initialising and refreshing\<close>

definition newDexie :: "state \<Rightarrow> state" where
  "newDexie s =
     act (NewDexie (cname (config s)))
       (s\<lparr>db := Some \<lparr>hname = cname (config s), hbound = []\<rparr>, dbStatus := Fresh\<rparr>)"

text \<open>\<open>this.db.name\<close>; every use below is at a point where the handle exists.\<close>

definition dbName :: "state \<Rightarrow> jsstring" where
  "dbName s = (case db s of Some h \<Rightarrow> hname h | None \<Rightarrow> [])"

text \<open>
  \<open>Object.fromEntries\<close>: the object with the keys of the entries, a later entry of a key
  replacing an earlier one.
\<close>

definition fromEntries :: "(jsstring \<times> jsstring) list \<Rightarrow> (jsstring \<rightharpoonup> jsstring)" where
  "fromEntries es = map_of (rev es)"

text \<open>
  The members of a Dexie instance. A table whose name is one of them gets no property on
  the instance: \<open>this.db[name]\<close> stays the member, which has no \<open>count\<close> and no \<open>add\<close>.
\<close>

definition handleMember :: "env \<Rightarrow> jsstring \<Rightarrow> bool" where
  "handleMember ev n \<longleftrightarrow>
     n \<in> {str ''name'', str ''version'', str ''open'', str ''delete''} \<or> otherMember ev n"

text \<open>
  \<open>this.db.version(config.version).stores(tables)\<close>, where \<open>tables\<close> is built from the
  \<open>[name, schema]\<close> entries of \<open>config.tables\<close>. What throws, in the order of evaluation:
  \<open>config.tables.map\<close> when there is no \<open>tables\<close>, \<open>version\<close> when the version is not a
  positive number, \<open>stores\<close> when Dexie refuses the object.
\<close>

definition configEntries :: "state \<Rightarrow> (jsstring \<times> jsstring) list" where
  "configEntries s =
     (case ctables (config s) of
        None \<Rightarrow> []
      | Some ts \<Rightarrow> map (\<lambda>t. (tname t, tschema t)) ts)"

definition bindError :: "env \<Rightarrow> state \<Rightarrow> err option" where
  "bindError ev s =
     (case ctables (config s) of
        None \<Rightarrow> Some (Thrown (str ''TypeError''))
      | Some ts \<Rightarrow>
          if cversion (config s) = 0 then Some (Thrown (str ''Dexie.TypeError''))
          else map_option Thrown (schemaRejects ev (fromEntries (configEntries s))))"

definition bindSchema :: "env \<Rightarrow> state \<Rightarrow> unit res" where
  "bindSchema ev s =
     (case bindError ev s of
        Some e \<Rightarrow> (Inl e, s)
      | None \<Rightarrow>
          (Inr (),
           act (Stores (cversion (config s)) (fromEntries (configEntries s)))
             (s\<lparr>db := map_option (\<lambda>h. h\<lparr>hbound := remdups (map fst (configEntries s))\<rparr>)
                         (db s)\<rparr>)))"

text \<open>
  The awaited part of \<open>initializeDatabase\<close>: everything up to \<open>database:afterConnect\<close>.
  The scan of the empty tables is started with \<open>.then\<close> and not awaited; it is
  \<open>initializeThen\<close> below.
\<close>

definition initializeDatabase :: "env \<Rightarrow> state \<Rightarrow> unit res" where
  "initializeDatabase ev s =
     (let s1 = s\<lparr>thisLocale := Some (userLocale s)\<rparr>;
          s2 = dispatchEvent (BeforeCreate (cname (config s1))) s1;
          s3 = newDexie s2;
          reset =
            (if dbLocale s3 \<noteq> userLocale s3 then
               (case deleteDatabase ev s3 of
                  (Inl e, s4) \<Rightarrow> (Inl e, s4)
                | (Inr u, s4) \<Rightarrow>
                    (Inr (), newDexie (dispatchEvent (LocaleChanged (dbLocale s4) (userLocale s4)) s4)))
             else (Inr (), s3))
      in case reset of
           (Inl e, s5) \<Rightarrow> (Inl (InitializeFailed e), s5)
         | (Inr u, s5) \<Rightarrow>
             (let s6 = dispatchEvent (AfterCreate (dbName s5)) s5 in
              case bindSchema ev s6 of
                (Inl e, s7) \<Rightarrow> (Inl (InitializeFailed e), s7)
              | (Inr u, s7) \<Rightarrow>
                  (let s8 = act DexieOpen (dispatchEvent (BeforeConnect (dbName s7)) s7) in
                   case openRejects ev of
                     Some m \<Rightarrow>
                       (Inl (InitializeFailed (ConnectFailed (Thrown m))),
                        s8\<lparr>dbStatus := Failed m\<rparr>)
                   | None \<Rightarrow>
                       (Inr (), dispatchEvent (AfterConnect (dbName s8)) (s8\<lparr>dbStatus := Opened\<rparr>)))))"

definition refreshDatabase :: "env \<Rightarrow> state \<Rightarrow> unit res" where
  "refreshDatabase ev s =
     (case db s of
        None \<Rightarrow> (Inl NoDatabaseToRefresh, s)
      | Some h \<Rightarrow>
          (let s1 = dispatchEvent (BeforeRefresh (hname h)) s in
           case deleteDatabase ev s1 of
             (Inl e, s2) \<Rightarrow> (Inl (RefreshFailed e), s2)
           | (Inr u, s2) \<Rightarrow>
               (case initializeDatabase ev s2 of
                  (Inl e, s3) \<Rightarrow> (Inl (RefreshFailed e), s3)
                | (Inr u, s3) \<Rightarrow> (Inr (), dispatchEvent (AfterRefresh (dbName s3)) s3))))"

section \<open>Scanning for empty tables\<close>

text \<open>
  \<open>this.db[name]\<close> is a table when the name was given to \<open>stores\<close> and is not a member of
  the instance. A Dexie object that is closed or failed to open rejects every operation;
  a fresh one is opened by Dexie at the first operation, which then fails as \<open>open()\<close>
  would.
\<close>

definition typeError :: err where
  "typeError = Thrown (str ''TypeError'')"

definition tableDefined :: "env \<Rightarrow> state \<Rightarrow> jsstring \<Rightarrow> bool" where
  "tableDefined ev s n =
     (case db s of None \<Rightarrow> False | Some h \<Rightarrow> n \<in> set (hbound h) \<and> \<not> handleMember ev n)"

definition handleError :: "env \<Rightarrow> state \<Rightarrow> err option" where
  "handleError ev s =
     (case dbStatus s of
        Opened \<Rightarrow> None
      | Fresh \<Rightarrow> map_option Thrown (openRejects ev)
      | Closed \<Rightarrow> Some (Thrown (str ''DatabaseClosedError''))
      | Failed m \<Rightarrow> Some (Thrown m))"

text \<open>
  \<open>await this.db[name].count()\<close>: a TypeError when there is no handle or \<open>this.db[name]\<close>
  is not a table, the rejection of an unusable Dexie object, the number of stored records
  otherwise.
\<close>

definition tableCount :: "env \<Rightarrow> state \<Rightarrow> jsstring \<Rightarrow> err + nat" where
  "tableCount ev s n =
     (if \<not> tableDefined ev s n then Inl typeError
      else case handleError ev s of
             Some e \<Rightarrow> Inl e
           | None \<Rightarrow> Inr (length (idb s n)))"

fun countLoop ::
  "env \<Rightarrow> state \<Rightarrow> tableSpec list \<Rightarrow> tableSpec list \<Rightarrow> err + tableSpec list" where
  "countLoop ev s [] emptyTables = Inr emptyTables"
| "countLoop ev s (t # ts) emptyTables =
     (case tableCount ev s (tname t) of
        Inl e \<Rightarrow> Inl e
      | Inr c \<Rightarrow> countLoop ev s ts (if c = 0 then emptyTables @ [t] else emptyTables))"

text \<open>\<open>for (const table of this.config.tables)\<close> throws when there is no \<open>tables\<close>.\<close>

definition countEmptyTables :: "env \<Rightarrow> state \<Rightarrow> tableSpec list res" where
  "countEmptyTables ev s =
     (case ctables (config s) of
        None \<Rightarrow> (Inl typeError, s)
      | Some ts \<Rightarrow> (countLoop ev s ts [], s))"

section \<open>Fetching a table, page by page\<close>

text \<open>
  \<open>String.prototype.replace\<close> with a string pattern: the first occurrence only, and the
  replacement text is expanded by GetSubstitution. With a string pattern there are no
  captures, so \<open>$$\<close>, \<open>$&\<close>, \<open>$`\<close> and \<open>$'\<close> are the only patterns that expand.
\<close>

fun findFirst :: "jsstring \<Rightarrow> jsstring \<Rightarrow> (jsstring \<times> jsstring) option" where
  "findFirst pat [] = (if pat = [] then Some ([], []) else None)"
| "findFirst pat (c # cs) =
     (if take (length pat) (c # cs) = pat then Some ([], drop (length pat) (c # cs))
      else map_option (\<lambda>(pre, post). (c # pre, post)) (findFirst pat cs))"

fun getSubstitution :: "jsstring \<Rightarrow> jsstring \<Rightarrow> jsstring \<Rightarrow> jsstring \<Rightarrow> jsstring" where
  "getSubstitution matched pre post (c # d # r) =
     (if c = 36 \<and> d = 36 then 36 # getSubstitution matched pre post r
      else if c = 36 \<and> d = 38 then matched @ getSubstitution matched pre post r
      else if c = 36 \<and> d = 96 then pre @ getSubstitution matched pre post r
      else if c = 36 \<and> d = 39 then post @ getSubstitution matched pre post r
      else c # getSubstitution matched pre post (d # r))"
| "getSubstitution matched pre post r = r"

definition replaceFirst :: "jsstring \<Rightarrow> jsstring \<Rightarrow> jsstring \<Rightarrow> jsstring" where
  "replaceFirst pat rep s =
     (case findFirst pat s of
        None \<Rightarrow> s
      | Some (pre, post) \<Rightarrow> pre @ getSubstitution pat pre post rep @ post)"

text \<open>\<open>this.locale\<close> as \<open>replace\<close> converts it to a string.\<close>

definition localeText :: "state \<Rightarrow> jsstring" where
  "localeText s = (case thisLocale s of Some l \<Rightarrow> l | None \<Rightarrow> str ''undefined'')"

definition fullUrl :: "state \<Rightarrow> tableSpec \<Rightarrow> jsstring" where
  "fullUrl s t = replaceFirst (str ''{locale}'') (localeText s) (root t @ endpoint t)"

text \<open>
  \<open>data.member.forEach(record => this.db[table.name].add({id: record.id, meta: record}))\<close>.
  The promise \<open>add\<close> returns is not awaited, so only looking the table up can throw here;
  what the table holds after an \<open>add\<close> is the store's business (\<open>addRec\<close>), and the
  store is taken to apply each \<open>add\<close> in the order of the calls. On an unusable Dexie
  object the promise is rejected, unseen, and nothing is stored.
\<close>

fun addAll :: "env \<Rightarrow> jsstring \<Rightarrow> member list \<Rightarrow> state \<Rightarrow> state" where
  "addAll ev n [] s = s"
| "addAll ev n (r # rs) s =
     (let obj = \<lparr>sid = fst r, meta = r\<rparr> in
      addAll ev n rs
        (act (TableAdd n obj)
           (s\<lparr>idb := (if handleError ev s = None then (idb s)(n := addRec ev (idb s n) obj)
                       else idb s)\<rparr>)))"

text \<open>A table that can be counted and written: defined, on a usable Dexie object.\<close>

definition tableBound :: "env \<Rightarrow> state \<Rightarrow> jsstring \<Rightarrow> bool" where
  "tableBound ev s n \<longleftrightarrow> tableDefined ev s n \<and> handleError ev s = None"

text \<open>\<open>data.view && data.view.next\<close>: the cursor, when it is there and not the empty string.\<close>

fun nextCursor :: "jsstring option option \<Rightarrow> jsstring option" where
  "nextCursor (Some (Some c)) = (if c = [] then None else Some c)"
| "nextCursor _ = None"

text \<open>
  The recursion of \<open>fetchTable\<close> follows the cursors the remote hands out, which need not
  end; the first argument bounds the number of pages, and \<open>None\<close> says the bound was
  reached before the chain ended. Everything inside \<open>try\<close> that throws ends in the
  \<open>catch\<close>, which logs and returns.
\<close>

fun fetchTable :: "nat \<Rightarrow> env \<Rightarrow> tableSpec option \<Rightarrow> state \<Rightarrow> unit res option" where
  "fetchTable 0 ev table s = None"
| "fetchTable (Suc k) ev table s =
     (if db s = None then Some (Inl NoDatabase, s)
      else case table of
        None \<Rightarrow> Some (Inr (), s)
      | Some t \<Rightarrow>
          (let url = fullUrl s t; s1 = act (Fetch url) s in
           case remote ev url of
             NetworkError m \<Rightarrow> Some (Inr (), act (ConsoleError (tname t)) s1)
           | NotJson m \<Rightarrow> Some (Inr (), act (ConsoleError (tname t)) s1)
           | Json BNull \<Rightarrow> Some (Inr (), act (ConsoleError (tname t)) s1)
           | Json (BData mem view) \<Rightarrow>
               (case mem of
                  None \<Rightarrow> Some (Inr (), s1)
                | Some ms \<Rightarrow>
                    if length ms > 0 then
                      (if \<not> tableDefined ev s1 (tname t)
                       then Some (Inr (), act (ConsoleError (tname t)) s1)
                       else
                         (let s2 = addAll ev (tname t) ms s1 in
                          case nextCursor view of
                            None \<Rightarrow> Some (Inr (), s2)
                          | Some c \<Rightarrow>
                              (case fetchTable k ev
                                      (Some \<lparr>tname = tname t, tschema = [], root = root t,
                                             endpoint = c\<rparr>) s2 of
                                 None \<Rightarrow> None
                               | Some (Inl e, s3) \<Rightarrow> Some (Inr (), act (ConsoleError (tname t)) s3)
                               | Some (Inr u, s3) \<Rightarrow> Some (Inr (), s3))))
                    else Some (Inr (), s1))))"

definition syncTable :: "nat \<Rightarrow> env \<Rightarrow> tableSpec option \<Rightarrow> state \<Rightarrow> unit res option" where
  "syncTable k ev table s =
     (if db s = None then Some (Inl NoDatabase, s)
      else case table of
        None \<Rightarrow> Some (Inr (), s)
      | Some t \<Rightarrow>
          (case tableCount ev s (tname t) of
             Inl e \<Rightarrow> Some (Inr (), act (ConsoleError (tname t)) s)
           | Inr c \<Rightarrow>
               if c = 0 then
                 (case fetchTable k ev (Some t) s of
                    None \<Rightarrow> None
                  | Some (Inl e, s1) \<Rightarrow> Some (Inr (), act (ConsoleError (tname t)) s1)
                  | Some (Inr u, s1) \<Rightarrow> Some (Inr (), s1))
               else Some (Inr (), s)))"

section \<open>Progress as \<open>(index / tables.length).toFixed(2)\<close>\<close>

text \<open>
  \<open>index / tables.length\<close> is the double nearest to the quotient, ties to the even
  mantissa. For \<open>0 < i \<le> n\<close> (the loop produces no other arguments) the quotient lies in
  \<open>(0, 1]\<close>: \<open>binExp i n\<close> is the least \<open>k\<close> with \<open>n \<le> i * 2 ^ k\<close>, so that the quotient
  scaled by \<open>2 ^ (52 + k)\<close> lies in \<open>[2 ^ 52, 2 ^ 53)\<close>, and the double is
  \<open>m / 2 ^ (52 + k)\<close> with \<open>m\<close> the scaled quotient rounded to an integer. (An array
  length is below \<open>2 ^ 32\<close>, so the quotient is far from the subnormal range.)
\<close>

function binExp :: "nat \<Rightarrow> nat \<Rightarrow> nat" where
  "binExp i n = (if i = 0 \<or> n \<le> i then 0 else Suc (binExp (2 * i) n))"
  by pat_completeness auto
termination
  by (relation "measure (\<lambda>(i, n). n - i)") auto

declare binExp.simps [simp del]

definition roundHalfEven :: "nat \<Rightarrow> nat \<Rightarrow> nat" where
  "roundHalfEven a n =
     (let q = a div n; r = a mod n in
      if 2 * r < n then q else if n < 2 * r then q + 1 else if even q then q else q + 1)"

definition divDouble :: "nat \<Rightarrow> nat \<Rightarrow> nat \<times> nat" where
  "divDouble i n = (let e = 52 + binExp i n in (roundHalfEven (i * 2 ^ e) n, e))"

text \<open>
  \<open>x.toFixed(2)\<close> takes the integer \<open>N\<close> nearest to \<open>x * 100\<close>, the larger one of two
  equally near, and writes its decimal digits, padded to three, with a point before the
  last two.
\<close>

definition hundredths :: "nat \<Rightarrow> nat \<Rightarrow> nat" where
  "hundredths i n = (case divDouble i n of (m, e) \<Rightarrow> (200 * m + 2 ^ e) div 2 ^ (e + 1))"

function decimal :: "nat \<Rightarrow> jsstring" where
  "decimal n = (if n < 10 then [48 + n] else decimal (n div 10) @ [48 + n mod 10])"
  by pat_completeness auto
termination
  by (relation "measure id") auto

declare decimal.simps [simp del]

definition fixed2 :: "nat \<Rightarrow> jsstring" where
  "fixed2 N =
     (let m = decimal N;
          p = (if length m \<le> 2 then replicate (3 - length m) 48 @ m else m)
      in take (length p - 2) p @ [46] @ drop (length p - 2) p)"

definition toFixed2 :: "nat \<Rightarrow> nat \<Rightarrow> jsstring" where
  "toFixed2 i n = fixed2 (hundredths i n)"

text \<open>
  Reading such a string back as a number of hundredths: its decimal digits without the
  point. This is the decimal value the string denotes, which a consumer gets at by
  coercing the string to a number.
\<close>

definition digitsValue :: "jsstring \<Rightarrow> nat" where
  "digitsValue ds = foldl (\<lambda>a c. 10 * a + (c - 48)) 0 ds"

definition readFixed2 :: "jsstring \<Rightarrow> nat" where
  "readFixed2 p = digitsValue (filter (\<lambda>c. c \<noteq> 46) p)"

section \<open>Populating the empty tables\<close>

text \<open>
  The \<open>for\<close> loop of \<open>populateEmptyTables\<close>, with \<open>tables.length\<close> and the running
  \<open>index\<close>; an error thrown by \<open>syncTable\<close> leaves the loop and the function.
\<close>

fun populateLoop ::
  "nat \<Rightarrow> env \<Rightarrow> nat \<Rightarrow> nat \<Rightarrow> tableSpec list \<Rightarrow> state \<Rightarrow> unit res option" where
  "populateLoop k ev len index [] s = Some (Inr (), s)"
| "populateLoop k ev len index (t # ts) s =
     (case syncTable k ev (Some t) s of
        None \<Rightarrow> None
      | Some (Inl e, s1) \<Rightarrow> Some (Inl e, s1)
      | Some (Inr u, s1) \<Rightarrow>
          (let progress = toFixed2 index len;
               s2 = dispatchEvent (Progress index len (tname t) progress) s1;
               s3 = act (Delay 600) s2
           in populateLoop k ev len (index + 1) ts s3))"

definition populateEmptyTables :: "nat \<Rightarrow> env \<Rightarrow> tableSpec list \<Rightarrow> state \<Rightarrow> unit res option" where
  "populateEmptyTables k ev tables s =
     (case populateLoop k ev (length tables) 1 tables s of
        None \<Rightarrow> None
      | Some (Inl e, s1) \<Rightarrow> Some (Inl e, s1)
      | Some (Inr u, s1) \<Rightarrow> Some (Inr (), dispatchEvent Ready s1))"

text \<open>
  The callback \<open>initializeDatabase\<close> hands to \<open>countEmptyTables().then\<close>; it runs after
  \<open>initializeDatabase\<close> has returned.
\<close>

definition initializeThen :: "nat \<Rightarrow> env \<Rightarrow> state \<Rightarrow> unit res option" where
  "initializeThen k ev s =
     (case countEmptyTables ev s of
        (Inl e, s1) \<Rightarrow> Some (Inl e, s1)
      | (Inr emptyTables, s1) \<Rightarrow>
          if length emptyTables > 0 then populateEmptyTables k ev emptyTables s1
          else Some (Inr (), dispatchEvent Ready s1))"

section \<open>Reading the log, and the remote's cursor chain\<close>

text \<open>The events dispatched and the URLs requested, in order.\<close>

fun events :: "action list \<Rightarrow> event list" where
  "events [] = []"
| "events (Dispatch e # as) = e # events as"
| "events (a # as) = events as"

fun requests :: "action list \<Rightarrow> jsstring list" where
  "requests [] = []"
| "requests (Fetch u # as) = u # requests as"
| "requests (a # as) = requests as"


definition toStored :: "member \<Rightarrow> stored" where
  "toStored r = \<lparr>sid = fst r, meta = r\<rparr>"

text \<open>
  The pages a remote serves from an endpoint on, seen from outside the manager: each page
  with the members it contributes, following the cursor of a page as long as the page has
  members and a non-empty cursor. A request that fails, a body that is not the expected
  object, and a page without members each end the chain and contribute nothing.
  \<open>None\<close>: the chain is longer than the bound.
\<close>

fun chainPages ::
  "nat \<Rightarrow> (jsstring \<Rightarrow> response) \<Rightarrow> jsstring \<Rightarrow> jsstring \<Rightarrow> jsstring
     \<Rightarrow> (jsstring \<times> member list) list option" where
  "chainPages 0 rem loc rt ep = None"
| "chainPages (Suc k) rem loc rt ep =
     (let url = replaceFirst (str ''{locale}'') loc (rt @ ep) in
      case rem url of
        Json (BData (Some ms) view) \<Rightarrow>
          if ms = [] then Some [(url, [])]
          else (case nextCursor view of
                  None \<Rightarrow> Some [(url, ms)]
                | Some c \<Rightarrow> map_option ((#) (url, ms)) (chainPages k rem loc rt c))
      | _ \<Rightarrow> Some [(url, [])])"

text \<open>
  The cursor a response makes \<open>fetchTable\<close> follow: the page must have members and a
  non-empty \<open>view.next\<close>. \<open>isChain\<close>: a sequence of request URLs in which every
  request but the last is answered with such a cursor and followed by the request
  against root and cursor, and the last is answered without one.
\<close>

fun followUp :: "response \<Rightarrow> jsstring option" where
  "followUp (Json (BData (Some ms) view)) = (if ms = [] then None else nextCursor view)"
| "followUp r = None"

fun isChain :: "(jsstring \<Rightarrow> response) \<Rightarrow> jsstring \<Rightarrow> jsstring \<Rightarrow> jsstring list \<Rightarrow> bool" where
  "isChain rem loc rt [] = False"
| "isChain rem loc rt [u] = (followUp (rem u) = None)"
| "isChain rem loc rt (u # v # us) =
     (case followUp (rem u) of
        None \<Rightarrow> False
      | Some c \<Rightarrow> v = replaceFirst (str ''{locale}'') loc (rt @ c) \<and> isChain rem loc rt (v # us))"

text \<open>A response that makes the fetch throw: no answer, no JSON, or \<open>null\<close>.\<close>

fun failedResponse :: "response \<Rightarrow> bool" where
  "failedResponse (Json (BData mem view)) = False"
| "failedResponse _ = True"

text \<open>The fields of \<open>this\<close> that fetching and populating leave alone.\<close>

definition sameManager :: "state \<Rightarrow> state \<Rightarrow> bool" where
  "sameManager s s' \<longleftrightarrow>
     db s' = db s \<and> dbStatus s' = dbStatus s \<and> thisLocale s' = thisLocale s
     \<and> config s' = config s \<and> dbLocale s' = dbLocale s \<and> userLocale s' = userLocale s"

text \<open>The progress events of tables \<open>ts\<close>, numbered from \<open>i\<close>, out of \<open>len\<close>.\<close>

fun progressFrom :: "nat \<Rightarrow> nat \<Rightarrow> tableSpec list \<Rightarrow> event list" where
  "progressFrom len i [] = []"
| "progressFrom len i (t # ts) =
     Progress i len (tname t) (toFixed2 i len) # progressFrom len (Suc i) ts"

text \<open>
  What scanning and populating may add to the log: requests, inserts, console errors,
  the pacing delay, and the progress and ready events. \<open>extends s s'\<close>: the log of
  \<open>s'\<close> is the log of \<open>s\<close> followed by such actions only.
\<close>

fun backgroundAction :: "action \<Rightarrow> bool" where
  "backgroundAction (Fetch u) = True"
| "backgroundAction (TableAdd n r) = True"
| "backgroundAction (ConsoleError n) = True"
| "backgroundAction (Delay d) = True"
| "backgroundAction (Dispatch (Progress i n nm p)) = True"
| "backgroundAction (Dispatch Ready) = True"
| "backgroundAction a = False"

definition extends :: "state \<Rightarrow> state \<Rightarrow> bool" where
  "extends s s' \<longleftrightarrow>
     take (length (log s)) (log s') = log s
     \<and> list_all backgroundAction (drop (length (log s)) (log s'))"

text \<open>
  What a run of \<open>fetchTable\<close> over the pages \<open>ps\<close> has done to the manager: the requests,
  in order, and the members handed to the table's \<open>add\<close>, in order; no event.
\<close>

definition fetched ::
  "env \<Rightarrow> jsstring \<Rightarrow> (jsstring \<times> member list) list \<Rightarrow> state \<Rightarrow> state \<Rightarrow> bool" where
  "fetched ev n ps s s' \<longleftrightarrow>
     sameManager s s' \<and> extends s s' \<and> events (log s') = events (log s)
     \<and> requests (log s') = requests (log s) @ map fst ps
     \<and> idb s' = (idb s)(n := foldl (addRec ev) (idb s n) (map toStored (concat (map snd ps))))"

text \<open>
  \<open>synced\<close>: what one \<open>syncTable\<close> may have done; \<open>populated\<close>: what the loop of
  \<open>populateEmptyTables\<close> over \<open>ts\<close> has done, with its progress events.
\<close>

definition synced :: "state \<Rightarrow> state \<Rightarrow> bool" where
  "synced s s' \<longleftrightarrow> sameManager s s' \<and> extends s s' \<and> events (log s') = events (log s)"

definition populated :: "nat \<Rightarrow> nat \<Rightarrow> tableSpec list \<Rightarrow> state \<Rightarrow> state \<Rightarrow> bool" where
  "populated len i ts s s' \<longleftrightarrow>
     sameManager s s' \<and> extends s s' \<and> events (log s') = events (log s) @ progressFrom len i ts"

text \<open>The fields of a progress event's detail, and the progress strings a run dispatched.\<close>

fun detailIndex :: "event \<Rightarrow> nat" where
  "detailIndex (Progress i n nm p) = i"
| "detailIndex e = 0"


fun detailProgress :: "event \<Rightarrow> jsstring" where
  "detailProgress (Progress i n nm p) = p"
| "detailProgress e = []"

definition detailValue :: "event \<Rightarrow> nat" where
  "detailValue e = readFixed2 (detailProgress e)"

fun isProgress :: "event \<Rightarrow> bool" where
  "isProgress (Progress i n nm p) = True"
| "isProgress e = False"

fun progressOf :: "unit res option \<Rightarrow> jsstring list" where
  "progressOf (Some (r, s)) = map detailProgress (filter isProgress (events (log s)))"
| "progressOf None = []"

section \<open>The listener of \<open>database:progress\<close>\<close>

text \<open>
  The listener the application registers hands \<open>event.detail.progress * 100\<close> to
  \<open>progressDialog.setProgress\<close>. The operand is a string, so \<open>*\<close> first converts it to a
  number: an unsigned decimal literal, digits with at most one point, denotes the double
  nearest to its decimal value (\<open>None\<close> stands for \<open>NaN\<close> and for the literal forms left
  out here: signs, exponents, white space and the other radixes). The product is the
  double nearest to the exact product. A double is written \<open>(m, e)\<close> for \<open>m / 2 ^ e\<close>;
  \<open>nearest a b\<close> is the double nearest to \<open>a / b\<close>, for a quotient below \<open>2 ^ 52\<close>.
\<close>

definition nearest :: "nat \<Rightarrow> nat \<Rightarrow> nat \<times> nat" where
  "nearest a b = (let e = binExp a (b * 2 ^ 52) in (roundHalfEven (a * 2 ^ e) b, e))"

definition isDigit :: "nat \<Rightarrow> bool" where
  "isDigit c \<longleftrightarrow> 48 \<le> c \<and> c \<le> 57"

definition toNumber :: "jsstring \<Rightarrow> (nat \<times> nat) option" where
  "toNumber p =
     (let ip = takeWhile (\<lambda>c. c \<noteq> 46) p;
          fp = tl (dropWhile (\<lambda>c. c \<noteq> 46) p)
      in if p = [] then Some (0, 0)
         else if list_all isDigit (ip @ fp) \<and> ip @ fp \<noteq> []
         then Some (nearest (digitsValue (ip @ fp)) (10 ^ length fp))
         else None)"

definition times100 :: "nat \<times> nat \<Rightarrow> nat \<times> nat" where
  "times100 x = (case x of (m, e) \<Rightarrow> nearest (100 * m) (2 ^ e))"

definition progressListener :: "event \<Rightarrow> (nat \<times> nat) option" where
  "progressListener e = map_option times100 (toNumber (detailProgress e))"

section \<open>The progress string in the specification's words\<close>

text \<open>
  \<open>nearestDouble i n m x\<close>: \<open>m / 2 ^ x\<close> is the double \<open>i / n\<close>, that is, \<open>i / n\<close> lies in
  the binade \<open>[2 ^ 52 / 2 ^ x, 2 ^ 53 / 2 ^ x)\<close>, where the doubles are the multiples of
  \<open>1 / 2 ^ x\<close>, and \<open>m / 2 ^ x\<close> is the multiple nearest to it, the one with the even \<open>m\<close>
  of two equally near. \<open>nearestHundredth m x N\<close>: \<open>N / 100\<close> is what \<open>toFixed(2)\<close> writes
  for \<open>m / 2 ^ x\<close>, that is, \<open>N\<close> is the integer nearest to \<open>100 * m / 2 ^ x\<close>, the larger
  one of two equally near.
\<close>

definition nearestDouble :: "nat \<Rightarrow> nat \<Rightarrow> nat \<Rightarrow> nat \<Rightarrow> bool" where
  "nearestDouble i n m x \<longleftrightarrow>
     n * 2 ^ 52 \<le> i * 2 ^ x \<and> i * 2 ^ x < n * 2 ^ 53
     \<and> (let d = (n * m - i * 2 ^ x) + (i * 2 ^ x - n * m)
        in 2 * d < n \<or> 2 * d = n \<and> even m)"

definition nearestHundredth :: "nat \<Rightarrow> nat \<Rightarrow> nat \<Rightarrow> bool" where
  "nearestHundredth m x N \<longleftrightarrow>
     2 ^ x * (2 * N) \<le> 200 * m + 2 ^ x \<and> 200 * m + 2 ^ x < 2 ^ x * (2 * N + 2)"

text \<open>The events a run has added to those dispatched before it.\<close>

definition dispatchedSince :: "state \<Rightarrow> state \<Rightarrow> event list" where
  "dispatchedSince s s' = drop (length (events (log s))) (events (log s'))"

section \<open>The constructor's contract in the specification's words\<close>

text \<open>
  A configuration is rejected when it is absent, not an object, or has no keys; a locale
  when it is absent, not a string, or blank after trimming.
\<close>

definition configRejected :: "jsval \<Rightarrow> bool" where
  "configRejected c = (case c of JObj ks cfg \<Rightarrow> ks = [] | _ \<Rightarrow> True)"

definition localeRejected :: "jsval \<Rightarrow> bool" where
  "localeRejected v = (case v of JStr s \<Rightarrow> trim s = [] | _ \<Rightarrow> True)"

fun isLocaleError :: "err + state \<Rightarrow> bool" where
  "isLocaleError (Inl DbLocaleInvalid) = True"
| "isLocaleError (Inl UserLocaleInvalid) = True"
| "isLocaleError _ = False"

fun isFailure :: "err + 'a \<Rightarrow> bool" where
  "isFailure (Inl e) = True"
| "isFailure (Inr x) = False"

section \<open>A small application\<close>

definition pokemonTable :: tableSpec where
  "pokemonTable =
     \<lparr>tname = str ''pokemon'', tschema = str ''id'', root = str ''https://api'',
      endpoint = str ''/{locale}/pokemon''\<rparr>"

definition itemTable :: tableSpec where
  "itemTable =
     \<lparr>tname = str ''item'', tschema = str ''id'', root = str ''https://api'',
      endpoint = str ''/{locale}/item''\<rparr>"

definition demoConfig :: storeConfig where
  "demoConfig =
     \<lparr>cname = str ''dex'', cversion = 1, ctables = Some [pokemonTable, itemTable]\<rparr>"

definition emptyDisk :: "jsstring \<Rightarrow> stored list" where
  "emptyDisk n = []"

definition configArg :: jsval where
  "configArg = JObj [str ''name'', str ''version'', str ''tables''] demoConfig"

text \<open>The manager as the constructor leaves it, parked in either locale situation.\<close>

definition sameLocale :: state where
  "sameLocale =
     \<lparr>config = demoConfig, dbLocale = str ''en'', userLocale = str ''en'', thisLocale = None,
      db = None, dbStatus = Fresh, idb = emptyDisk, log = [NewEventTarget]\<rparr>"

definition otherLocale :: state where
  "otherLocale = sameLocale\<lparr>userLocale := str ''fr''\<rparr>"

definition appendRec :: "stored list \<Rightarrow> stored \<Rightarrow> stored list" where
  "appendRec xs r = xs @ [r]"

definition noNetwork :: "jsstring \<Rightarrow> response" where
  "noNetwork url = NetworkError (str ''offline'')"

definition anySchema :: "(jsstring \<rightharpoonup> jsstring) \<Rightarrow> jsstring option" where
  "anySchema tables = None"

definition noOtherMember :: "jsstring \<Rightarrow> bool" where
  "noOtherMember n = False"

definition offline :: env where
  "offline =
     \<lparr>remote = noNetwork, deleteRejects = None, openRejects = None, schemaRejects = anySchema,
      otherMember = noOtherMember, addRec = appendRec\<rparr>"

definition stuckDelete :: env where
  "stuckDelete = offline\<lparr>deleteRejects := Some (str ''blocked'')\<rparr>"

text \<open>The manager after a successful \<open>initializeDatabase\<close>, both tables empty.\<close>

definition opened :: state where
  "opened = snd (initializeDatabase offline sameLocale)"

text \<open>A configuration's worth of 101 tables, named by their number.\<close>

definition numberedTable :: "nat \<Rightarrow> tableSpec" where
  "numberedTable i =
     \<lparr>tname = decimal i, tschema = str ''id'', root = str ''https://api'', endpoint = decimal i\<rparr>"

definition manyTables :: "tableSpec list" where
  "manyTables = map numberedTable [1..<102]"

text \<open>
  Two remotes for the pokemon table. \<open>cursorOnly\<close> answers with a cursor and an empty
  member list. \<open>secondPageDown\<close> serves a first page of one member with a cursor, and is
  unreachable for every other request.
\<close>

definition cursorOnlyRemote :: "jsstring \<Rightarrow> response" where
  "cursorOnlyRemote url = Json (BData (Some []) (Some (Some (str ''/en/pokemon?page=2''))))"

definition cursorOnly :: env where
  "cursorOnly = offline\<lparr>remote := cursorOnlyRemote\<rparr>"

definition secondPageDownRemote :: "jsstring \<Rightarrow> response" where
  "secondPageDownRemote url =
     (if url = str ''https://api/en/pokemon''
      then Json (BData (Some [(1, str ''bulbasaur'')]) (Some (Some (str ''/en/pokemon?page=2''))))
      else NetworkError (str ''offline''))"

definition secondPageDown :: env where
  "secondPageDown = offline\<lparr>remote := secondPageDownRemote\<rparr>"

text \<open>\<open>twoPages\<close> serves two pages of one member each, the first with a cursor to the second.\<close>

definition twoPagesRemote :: "jsstring \<Rightarrow> response" where
  "twoPagesRemote url =
     (if url = str ''https://api/en/pokemon''
      then Json (BData (Some [(1, str ''bulbasaur'')]) (Some (Some (str ''/en/pokemon?page=2''))))
      else if url = str ''https://api/en/pokemon?page=2''
      then Json (BData (Some [(2, str ''ivysaur'')]) (Some None))
      else NetworkError (str ''offline''))"

definition twoPages :: env where
  "twoPages = offline\<lparr>remote := twoPagesRemote\<rparr>"

text \<open>What a scan sees after a run: the record count of a table, and the empty tables.\<close>

fun countAfter :: "env \<Rightarrow> unit res option \<Rightarrow> jsstring \<Rightarrow> err + nat" where
  "countAfter ev (Some (r, s)) n = tableCount ev s n"
| "countAfter ev None n = Inl NoDatabase"

fun emptyAfter :: "env \<Rightarrow> unit res option \<Rightarrow> err + tableSpec list" where
  "emptyAfter ev (Some (r, s)) = fst (countEmptyTables ev s)"
| "emptyAfter ev None = Inl NoDatabase"




text \<open>The opened store with one pokemon already in it.\<close>

definition bulbasaur :: stored where
  "bulbasaur = \<lparr>sid = 1, meta = (1, str ''bulbasaur'')\<rparr>"


section \<open>Deleting without a handle, and a delete that fails\<close>

text \<open>
  Without a handle \<open>deleteDatabase\<close> changes nothing and dispatches nothing. The error
  it throws is the missing-database error inside the deletion wrapper: the check is
  inside \<open>try\<close>, so its own \<open>catch\<close> re-throws it with the deletion prefix.
\<close>

lemma deleteDatabase_no_handle:
  "db s = None \<Longrightarrow> deleteDatabase ev s = (Inl (DeleteFailed NoDatabaseToDelete), s)"
  by (simp add: deleteDatabase_def)

text \<open>
  C5. On the manager as the constructor leaves it (no handle), \<open>deleteDatabase\<close>
  dispatches neither \<open>database:beforeDelete\<close> nor \<open>database:afterDelete\<close> (the manager
  comes back unchanged), but what it throws is not the missing-database error itself: it
  is the deletion failure wrapped around it. \<open>refreshDatabase\<close>, which makes the same check
  outside its \<open>try\<close>, throws its missing-database error unwrapped.
\<close>

theorem deleteDatabase_wraps_missing_handle:
  "db sameLocale = None
   \<and> deleteDatabase offline sameLocale = (Inl (DeleteFailed NoDatabaseToDelete), sameLocale)
   \<and> fst (deleteDatabase offline sameLocale) \<noteq> Inl NoDatabaseToDelete
   \<and> refreshDatabase offline sameLocale = (Inl NoDatabaseToRefresh, sameLocale)"
proof -
  have d: "db sameLocale = None"
    by (simp add: sameLocale_def)
  show ?thesis
    using d deleteDatabase_no_handle [OF d, of offline]
    by (simp add: refreshDatabase_def)
qed

text \<open>
  C10. When the handle exists and \<open>db.delete()\<close> rejects, \<open>deleteDatabase\<close> throws the
  wrapped rejection and \<open>this.db\<close> is still the same handle; a \<open>deleteDatabase\<close> or
  \<open>refreshDatabase\<close> called next, whatever the store does then, gets past its
  no-database check: it dispatches its before-event and does not fail with the
  no-database error.
\<close>

theorem deleteDatabase_failure_keeps_handle:
  assumes "db s = Some h" and "deleteRejects ev = Some m"
  shows "fst (deleteDatabase ev s) = Inl (DeleteFailed (Thrown m))
         \<and> db (snd (deleteDatabase ev s)) = Some h
         \<and> fst (deleteDatabase ev' (snd (deleteDatabase ev s))) \<noteq> Inl (DeleteFailed NoDatabaseToDelete)
         \<and> Dispatch (BeforeDelete (hname h))
              \<in> set (log (snd (deleteDatabase ev' (snd (deleteDatabase ev s)))))
         \<and> fst (refreshDatabase ev' (snd (deleteDatabase ev s))) \<noteq> Inl NoDatabaseToRefresh
         \<and> Dispatch (BeforeRefresh (hname h))
              \<in> set (log (snd (refreshDatabase ev' (snd (deleteDatabase ev s)))))"
proof -
  let ?s1 = "(act DexieDelete (dispatchEvent (BeforeDelete (hname h)) s))\<lparr>dbStatus := Closed\<rparr>"
  have first: "deleteDatabase ev s = (Inl (DeleteFailed (Thrown m)), ?s1)"
    using assms by (simp add: deleteDatabase_def)
  have handle: "db ?s1 = Some h"
    using assms by (simp add: act_def dispatchEvent_def)
  have again: "fst (deleteDatabase ev' ?s1) \<noteq> Inl (DeleteFailed NoDatabaseToDelete)"
    using handle by (simp add: deleteDatabase_def Let_def split: option.split)
  have again_event:
    "Dispatch (BeforeDelete (hname h)) \<in> set (log (snd (deleteDatabase ev' ?s1)))"
    using handle
    by (simp add: deleteDatabase_def Let_def act_def dispatchEvent_def split: option.split)
  have refresh: "fst (refreshDatabase ev' ?s1) \<noteq> Inl NoDatabaseToRefresh"
    using handle by (simp add: refreshDatabase_def Let_def split: option.split prod.split sum.split)
  have keep: "set (log t) \<subseteq> set (log (snd (deleteDatabase ev' t)))" for t
    by (auto simp: deleteDatabase_def Let_def act_def dispatchEvent_def split: option.split)
  have keep_init: "set (log t) \<subseteq> set (log (snd (initializeDatabase ev' t)))" for t
    using keep [of "newDexie (dispatchEvent (BeforeCreate (cname (config t)))
                      (t\<lparr>thisLocale := Some (userLocale t)\<rparr>))"]
    by (auto simp: initializeDatabase_def Let_def act_def dispatchEvent_def newDexie_def
        bindSchema_def split: option.split prod.split sum.split)
  have refresh_event:
    "Dispatch (BeforeRefresh (hname h)) \<in> set (log (snd (refreshDatabase ev' ?s1)))"
  proof -
    let ?t = "dispatchEvent (BeforeRefresh (hname h)) ?s1"
    have in_t: "Dispatch (BeforeRefresh (hname h)) \<in> set (log ?t)"
      by (simp add: act_def dispatchEvent_def)
    obtain r t2 where del: "deleteDatabase ev' ?t = (r, t2)"
      by (cases "deleteDatabase ev' ?t")
    have in_t2: "Dispatch (BeforeRefresh (hname h)) \<in> set (log t2)"
      using keep [of ?t] in_t del by auto
    obtain r3 t3 where ini: "initializeDatabase ev' t2 = (r3, t3)"
      by (cases "initializeDatabase ev' t2")
    have in_t3: "Dispatch (BeforeRefresh (hname h)) \<in> set (log t3)"
      using keep_init [of t2] in_t2 ini by auto
    show ?thesis
      using handle del ini in_t2 in_t3
      by (simp add: refreshDatabase_def Let_def act_def dispatchEvent_def
          split: sum.split)
  qed
  show ?thesis
    using first handle again again_event refresh refresh_event by simp
qed

theorem deleteDatabase_failure_keeps_handle_witness:
  "db (newDexie sameLocale) = Some \<lparr>hname = str ''dex'', hbound = []\<rparr>
   \<and> deleteRejects stuckDelete = Some (str ''blocked'')
   \<and> fst (deleteDatabase stuckDelete (newDexie sameLocale))
       = Inl (DeleteFailed (Thrown (str ''blocked'')))
   \<and> db (snd (deleteDatabase stuckDelete (newDexie sameLocale)))
       = Some \<lparr>hname = str ''dex'', hbound = []\<rparr>
   \<and> fst (refreshDatabase offline (snd (deleteDatabase stuckDelete (newDexie sameLocale))))
       \<noteq> Inl NoDatabaseToRefresh"
proof -
  have h: "db (newDexie sameLocale) = Some \<lparr>hname = str ''dex'', hbound = []\<rparr>"
    by (simp add: newDexie_def sameLocale_def demoConfig_def act_def)
  have r: "deleteRejects stuckDelete = Some (str ''blocked'')"
    by (simp add: stuckDelete_def)
  show ?thesis
    using deleteDatabase_failure_keeps_handle [OF h r, of offline] h r by simp
qed

section \<open>The constructor\<close>

lemma configInvalid_iff: "configInvalid c \<longleftrightarrow> configRejected c"
  by (cases c) (simp_all add: configInvalid_def configRejected_def)

lemma localeInvalid_iff: "localeInvalid v \<longleftrightarrow> localeRejected v"
  by (cases v) (auto simp: localeInvalid_def localeRejected_def trim_def)

text \<open>
  C7, as the code has it. The configuration is checked first: the constructor throws the
  configuration error exactly when the configuration is absent, not an object or without
  keys, and a locale error exactly when the configuration passes and either locale is
  absent, not a string or blank after trimming. It fails in exactly these cases, and in
  every case all it has created is the event target: no Dexie handle.
\<close>

theorem constructor_errors:
  "(fst (constructor disk c d u) = Inl ConfigInvalid \<longleftrightarrow> configRejected c)
   \<and> (isLocaleError (fst (constructor disk c d u))
        \<longleftrightarrow> (localeRejected d \<or> localeRejected u) \<and> \<not> configRejected c)
   \<and> (isFailure (fst (constructor disk c d u))
        \<longleftrightarrow> configRejected c \<or> localeRejected d \<or> localeRejected u)
   \<and> snd (constructor disk c d u) = [NewEventTarget]
   \<and> (case fst (constructor disk c d u) of Inl e \<Rightarrow> True | Inr m \<Rightarrow> db m = None)"
  by (simp add: constructor_def configInvalid_iff localeInvalid_iff)

theorem constructor_errors_witness:
  "fst (constructor emptyDisk configArg (JStr (str '' '')) (JStr (str ''en''))) = Inl DbLocaleInvalid
   \<and> localeRejected (JStr (str '' ''))
   \<and> \<not> configRejected configArg
   \<and> snd (constructor emptyDisk configArg (JStr (str '' '')) (JStr (str ''en''))) = [NewEventTarget]"
  using constructor_errors [of emptyDisk configArg "JStr (str '' '')" "JStr (str ''en'')"]
  by (simp add: constructor_def configInvalid_iff localeInvalid_iff configRejected_def
      localeRejected_def configArg_def trim_def isWhiteSpace_def str_def)

text \<open>
  That a locale error is thrown exactly when a locale is rejected fails when the
  configuration is rejected too: the configuration error wins.
\<close>

theorem constructor_locale_error_counterexample:
  "\<not> (isLocaleError (fst (constructor emptyDisk JNull (JStr []) (JStr (str ''en''))))
        \<longleftrightarrow> localeRejected (JStr []) \<or> localeRejected (JStr (str ''en'')))"
  by (simp add: constructor_def configInvalid_def localeRejected_def trim_def)

section \<open>Scanning for empty tables\<close>

lemma tableCount_bound:
  "tableBound ev s n \<Longrightarrow> tableCount ev s n = Inr (length (idb s n))"
  by (simp add: tableCount_def tableBound_def)





lemma opened_state:
  "opened =
     \<lparr>config = demoConfig, dbLocale = str ''en'', userLocale = str ''en'',
      thisLocale = Some (str ''en''),
      db = Some \<lparr>hname = str ''dex'', hbound = [str ''pokemon'', str ''item'']\<rparr>,
      dbStatus = Opened,
      idb = emptyDisk,
      log = [NewEventTarget, Dispatch (BeforeCreate (str ''dex'')), NewDexie (str ''dex''),
             Dispatch (AfterCreate (str ''dex'')),
             Stores 1 (fromEntries [(str ''pokemon'', str ''id''), (str ''item'', str ''id'')]),
             Dispatch (BeforeConnect (str ''dex'')), DexieOpen,
             Dispatch (AfterConnect (str ''dex''))]\<rparr>"
proof -
  have ne: "str ''pokemon'' \<noteq> str ''item''"
    by (simp add: str_def)
  show ?thesis
    using ne
    by (simp add: opened_def initializeDatabase_def sameLocale_def offline_def Let_def
        dispatchEvent_def act_def newDexie_def bindSchema_def bindError_def configEntries_def anySchema_def
        dbName_def demoConfig_def pokemonTable_def itemTable_def)
qed

lemma opened_fields:
  "db opened = Some \<lparr>hname = str ''dex'', hbound = [str ''pokemon'', str ''item'']\<rparr>"
  "dbStatus opened = Opened"
  "thisLocale opened = Some (str ''en'')"
  "idb opened = emptyDisk"
  "config opened = demoConfig"
  by (simp_all add: opened_state)

lemma plain_names:
  "\<not> handleMember offline (str ''pokemon'')" "\<not> handleMember offline (str ''item'')"
  by (simp_all add: handleMember_def offline_def noOtherMember_def str_def)

lemma opened_bound:
  "tableBound offline opened (tname pokemonTable)" "tableBound offline opened (tname itemTable)"
  using plain_names
  by (simp_all add: tableBound_def tableDefined_def handleError_def opened_fields
      pokemonTable_def itemTable_def)



section \<open>Runs of \<open>fetchTable\<close> along the cursor chain\<close>

lemma events_append: "events (xs @ ys) = events xs @ events ys"
  by (induction xs rule: events.induct) simp_all

lemma requests_append: "requests (xs @ ys) = requests xs @ requests ys"
  by (induction xs rule: requests.induct) simp_all


lemma sameManager_refl: "sameManager s s"
  by (simp add: sameManager_def)

lemma sameManager_act: "sameManager s (act a s)"
  by (simp add: sameManager_def act_def)

lemma addAll_fields:
  "db (addAll ev n ms s) = db s \<and> dbStatus (addAll ev n ms s) = dbStatus s
   \<and> thisLocale (addAll ev n ms s) = thisLocale s
   \<and> config (addAll ev n ms s) = config s \<and> dbLocale (addAll ev n ms s) = dbLocale s
   \<and> userLocale (addAll ev n ms s) = userLocale s"
  by (induction ms arbitrary: s) (simp_all add: Let_def act_def)

lemma handleError_frame: "dbStatus s' = dbStatus s \<Longrightarrow> handleError ev s' = handleError ev s"
  by (simp add: handleError_def)

lemma addAll_idb:
  assumes "handleError ev s = None"
  shows "idb (addAll ev n ms s) = (idb s)(n := foldl (addRec ev) (idb s n) (map toStored ms))"
  using assms
proof (induction ms arbitrary: s)
  case Nil
  show ?case by simp
next
  case (Cons r rs)
  let ?s1 = "act (TableAdd n (toStored r)) (s\<lparr>idb := (idb s)(n := addRec ev (idb s n) (toStored r))\<rparr>)"
  have step: "addAll ev n (r # rs) s = addAll ev n rs ?s1"
    using Cons.prems by (simp add: Let_def toStored_def)
  have "handleError ev ?s1 = None"
    using Cons.prems handleError_frame [of ?s1 s ev] by (simp add: act_def)
  then have "idb (addAll ev n rs ?s1)
               = (idb ?s1)(n := foldl (addRec ev) (idb ?s1 n) (map toStored rs))"
    by (rule Cons.IH)
  then show ?case
    unfolding step by (simp add: act_def)
qed

lemma addAll_events: "events (log (addAll ev n ms s)) = events (log s)"
  by (induction ms arbitrary: s) (simp_all add: Let_def act_def events_append)

lemma addAll_requests: "requests (log (addAll ev n ms s)) = requests (log s)"
  by (induction ms arbitrary: s) (simp_all add: Let_def act_def requests_append)


lemma sameManager_localeText: "sameManager s s' \<Longrightarrow> localeText s' = localeText s"
  by (simp add: sameManager_def localeText_def)

lemma sameManager_tableBound:
  "sameManager s s' \<Longrightarrow> tableBound ev s' n = tableBound ev s n"
  by (simp add: sameManager_def tableBound_def tableDefined_def handleError_def)

lemma extends_refl: "extends s s"
  by (simp add: extends_def)

lemma extends_act: "backgroundAction a \<Longrightarrow> extends s (act a s)"
  by (simp add: extends_def act_def)

lemma extends_trans:
  assumes "extends s t" and "extends t u"
  shows "extends s u"
proof -
  obtain xs where xs: "log t = log s @ xs" "list_all backgroundAction xs"
    using assms(1) unfolding extends_def by (metis append_take_drop_id)
  obtain ys where ys: "log u = log t @ ys" "list_all backgroundAction ys"
    using assms(2) unfolding extends_def by (metis append_take_drop_id)
  show ?thesis
    using xs ys by (simp add: extends_def)
qed

lemma addAll_extends: "extends s (addAll ev n ms s)"
proof (induction ms arbitrary: s)
  case Nil
  show ?case by (simp add: extends_refl)
next
  case (Cons r rs)
  let ?s1 = "act (TableAdd n (toStored r))
               (s\<lparr>idb := (if handleError ev s = None
                           then (idb s)(n := addRec ev (idb s n) (toStored r)) else idb s)\<rparr>)"
  have "extends s ?s1"
    by (simp add: extends_def act_def)
  moreover have "extends ?s1 (addAll ev n rs ?s1)"
    by (rule Cons.IH)
  ultimately have "extends s (addAll ev n rs ?s1)"
    by (rule extends_trans)
  then show ?case
    by (simp add: Let_def toStored_def split del: if_split cong del: if_weak_cong)
qed

lemma fetchTable_chain:
  assumes "tableBound ev s (tname t)"
  shows "case chainPages k (remote ev) (localeText s) (root t) (endpoint t) of
           None \<Rightarrow> fetchTable k ev (Some t) s = None
         | Some ps \<Rightarrow> (\<exists>s'. fetchTable k ev (Some t) s = Some (Inr (), s') \<and> fetched ev (tname t) ps s s')"
  using assms
proof (induction k arbitrary: t s)
  case 0
  show ?case by simp
next
  case (Suc k)
  have dbs: "db s \<noteq> None"
    using Suc.prems by (auto simp: tableBound_def tableDefined_def split: option.splits)
  have us: "handleError ev s = None"
    using Suc.prems by (simp add: tableBound_def)
  let ?url = "fullUrl s t"
  let ?s1 = "act (Fetch ?url) s"
  have url: "replaceFirst (str ''{locale}'') (localeText s) (root t @ endpoint t) = ?url"
    by (simp add: fullUrl_def)
  have f1: "fetched ev (tname t) [(?url, [])] s ?s1"
    by (simp add: fetched_def sameManager_def extends_def act_def events_append requests_append)
  have f1e: "fetched ev (tname t) [(?url, [])] s (act (ConsoleError (tname t)) ?s1)"
    by (simp add: fetched_def sameManager_def extends_def act_def events_append requests_append)
  show ?case
  proof (cases "remote ev ?url")
    case (NetworkError m)
    then show ?thesis using dbs f1e by (simp add: url Let_def)
  next
    case (NotJson m)
    then show ?thesis using dbs f1e by (simp add: url Let_def)
  next
    case (Json b)
    show ?thesis
    proof (cases b)
      case BNull
      then show ?thesis using Json dbs f1e by (simp add: url Let_def)
    next
      case (BData mem view)
      show ?thesis
      proof (cases mem)
        case None
        then show ?thesis using Json BData dbs f1 by (simp add: url Let_def)
      next
        case (Some ms)
        show ?thesis
        proof (cases "ms = []")
          case True
          then show ?thesis using Json BData Some dbs f1 by (simp add: url Let_def)
        next
          case False
          let ?s2 = "addAll ev (tname t) ms ?s1"
          have b1: "tableDefined ev ?s1 (tname t)"
            using Suc.prems by (simp add: tableBound_def tableDefined_def act_def)
          have us1: "handleError ev ?s1 = None"
            using us by (simp add: handleError_def act_def)
          have "extends s ?s1"
            by (simp add: extends_act)
          then have e2: "extends s ?s2"
            using addAll_extends extends_trans by blast
          have i2: "idb ?s2
                      = (idb s)(tname t := foldl (addRec ev) (idb s (tname t)) (map toStored ms))"
            using addAll_idb [OF us1, of "tname t" ms] by (simp add: act_def)
          have f2: "fetched ev (tname t) [(?url, ms)] s ?s2"
            using e2 i2
            by (simp add: fetched_def addAll_fields sameManager_def act_def
                addAll_events addAll_requests events_append requests_append)
          show ?thesis
          proof (cases "nextCursor view")
            case None
            then show ?thesis
              using Json BData Some False dbs b1 f2 by (simp add: url Let_def)
          next
            case (Some c)
            let ?t' = "\<lparr>tname = tname t, tschema = [], root = root t, endpoint = c\<rparr>"
            have sm: "sameManager s ?s2"
              using f2 by (simp add: fetched_def)
            have b2: "tableBound ev ?s2 (tname ?t')"
              using Suc.prems sameManager_tableBound [OF sm, of ev] by simp
            have lt: "localeText ?s2 = localeText s"
              using sameManager_localeText [OF sm] .
            note IH = Suc.IH [OF b2]
            show ?thesis
            proof (cases "chainPages k (remote ev) (localeText s) (root t) c")
              case None
              then have "fetchTable k ev (Some ?t') ?s2 = None"
                using IH by (simp add: lt)
              then show ?thesis
                using Json BData \<open>mem = Some ms\<close> False dbs b1 Some None
                by (simp add: url Let_def)
            next
              case (Some ps)
              then obtain s3 where run: "fetchTable k ev (Some ?t') ?s2 = Some (Inr (), s3)"
                and f3: "fetched ev (tname t) ps ?s2 s3"
                using IH by (auto simp: lt)
              have "extends s s3"
                using f2 f3 extends_trans by (auto simp: fetched_def)
              then have "fetched ev (tname t) ((?url, ms) # ps) s s3"
                using f2 f3 by (auto simp: fetched_def sameManager_def)
              then show ?thesis
                using Json BData \<open>mem = Some ms\<close> False dbs b1 \<open>nextCursor view = Some c\<close> Some run
                by (simp add: url Let_def)
            qed
          qed
        qed
      qed
    qed
  qed
qed

section \<open>Runs of \<open>syncTable\<close> and of the population loop\<close>

lemma tableCount_cases:
  "tableCount ev s n
     = (if tableBound ev s n then Inr (length (idb s n))
        else Inl (if tableDefined ev s n then the (handleError ev s) else typeError))"
  by (auto simp: tableCount_def tableBound_def split: option.splits)

lemma syncTable_cases:
  assumes "db s \<noteq> None"
  shows "syncTable k ev (Some t) s =
           (if \<not> tableBound ev s (tname t) then Some (Inr (), act (ConsoleError (tname t)) s)
            else if idb s (tname t) \<noteq> [] then Some (Inr (), s)
            else (case chainPages k (remote ev) (localeText s) (root t) (endpoint t) of
                    None \<Rightarrow> None
                  | Some ps \<Rightarrow> fetchTable k ev (Some t) s))"
proof (cases "tableBound ev s (tname t) \<and> idb s (tname t) = []")
  case True
  then have b: "tableBound ev s (tname t)" and e: "idb s (tname t) = []"
    by simp_all
  show ?thesis
  proof (cases "chainPages k (remote ev) (localeText s) (root t) (endpoint t)")
    case None
    then have "fetchTable k ev (Some t) s = None"
      using fetchTable_chain [OF b, of k] by simp
    then show ?thesis
      using assms b e None by (simp add: syncTable_def tableCount_cases)
  next
    case (Some ps)
    then obtain s' where "fetchTable k ev (Some t) s = Some (Inr (), s')"
      using fetchTable_chain [OF b, of k] by auto
    then show ?thesis
      using assms b e Some by (simp add: syncTable_def tableCount_cases)
  qed
next
  case False
  then show ?thesis
    using assms by (auto simp: syncTable_def tableCount_cases)
qed

lemma fetched_synced: "fetched ev n ps s s' \<Longrightarrow> synced s s'"
  by (simp add: fetched_def synced_def)

lemma synced_refl: "synced s s"
  by (simp add: synced_def sameManager_refl extends_refl)

lemma synced_error: "synced s (act (ConsoleError n) s)"
  by (simp add: synced_def sameManager_act extends_act) (simp add: act_def events_append)

lemma syncTable_partial:
  assumes "db s \<noteq> None" and "syncTable k ev (Some t) s = Some (r, s')"
  shows "r = Inr () \<and> synced s s'"
proof (cases "tableBound ev s (tname t) \<and> idb s (tname t) = []")
  case True
  then have b: "tableBound ev s (tname t)" and e: "idb s (tname t) = []"
    by simp_all
  show ?thesis
  proof (cases "chainPages k (remote ev) (localeText s) (root t) (endpoint t)")
    case None
    then show ?thesis
      using assms b e by (simp add: syncTable_cases)
  next
    case (Some ps)
    then obtain s2 where "fetchTable k ev (Some t) s = Some (Inr (), s2)"
      and "fetched ev (tname t) ps s s2"
      using fetchTable_chain [OF b, of k] by auto
    then show ?thesis
      using assms b e Some fetched_synced by (auto simp: syncTable_cases)
  qed
next
  case False
  then show ?thesis
    using assms synced_refl synced_error by (auto simp: syncTable_cases split: if_splits)
qed

lemma syncTable_total:
  assumes "db s \<noteq> None"
    and "chainPages k (remote ev) (localeText s) (root t) (endpoint t) \<noteq> None"
  shows "\<exists>s'. syncTable k ev (Some t) s = Some (Inr (), s')"
proof (cases "tableBound ev s (tname t) \<and> idb s (tname t) = []")
  case True
  then have b: "tableBound ev s (tname t)"
    by simp
  obtain ps where "chainPages k (remote ev) (localeText s) (root t) (endpoint t) = Some ps"
    using assms(2) by auto
  then show ?thesis
    using fetchTable_chain [OF b, of k] assms(1) True by (auto simp: syncTable_cases)
next
  case False
  then show ?thesis
    using assms(1) by (auto simp: syncTable_cases)
qed


lemma populateLoop_step:
  assumes "synced s s1"
    and "populated len (Suc i) ts
           (act (Delay 600) (dispatchEvent (Progress i len (tname t) (toFixed2 i len)) s1)) s'"
  shows "populated len i (t # ts) s s'"
proof -
  let ?s2 = "dispatchEvent (Progress i len (tname t) (toFixed2 i len)) s1"
  let ?s3 = "act (Delay 600) ?s2"
  have "extends s1 ?s2"
    by (simp add: dispatchEvent_def extends_act)
  moreover have "extends ?s2 ?s3"
    by (simp add: extends_act)
  ultimately have "extends s ?s3"
    using assms(1) extends_trans unfolding synced_def by blast
  then have ext: "extends s s'"
    using assms(2) extends_trans unfolding populated_def by blast
  have same: "sameManager s s'"
    using assms by (simp add: synced_def populated_def sameManager_def act_def dispatchEvent_def)
  have "events (log ?s3) = events (log s) @ [Progress i len (tname t) (toFixed2 i len)]"
    using assms(1) by (simp add: synced_def act_def dispatchEvent_def events_append)
  then have "events (log s') = events (log s) @ progressFrom len i (t # ts)"
    using assms(2) by (simp add: populated_def)
  then show ?thesis
    using ext same by (simp add: populated_def)
qed

lemma populateLoop_partial:
  assumes "db s \<noteq> None" and "populateLoop k ev len i ts s = Some (r, s')"
  shows "r = Inr () \<and> populated len i ts s s'"
  using assms
proof (induction ts arbitrary: i s)
  case Nil
  then show ?case
    by (simp add: populated_def sameManager_refl extends_refl)
next
  case (Cons t ts)
  obtain r1 s1 where sync: "syncTable k ev (Some t) s = Some (r1, s1)"
    using Cons.prems(2) by (cases "syncTable k ev (Some t) s") auto
  have r1: "r1 = Inr ()" and sy: "synced s s1"
    using syncTable_partial [OF Cons.prems(1) sync] by simp_all
  let ?s3 = "act (Delay 600) (dispatchEvent (Progress i len (tname t) (toFixed2 i len)) s1)"
  have db3: "db ?s3 \<noteq> None"
    using Cons.prems(1) sy by (simp add: synced_def sameManager_def act_def dispatchEvent_def)
  have loop: "populateLoop k ev len (Suc i) ts ?s3 = Some (r, s')"
    using Cons.prems(2) sync r1 by (simp add: Let_def)
  have "r = Inr ()" and "populated len (Suc i) ts ?s3 s'"
    using Cons.IH [OF db3 loop] by simp_all
  then show ?case
    using populateLoop_step [OF sy] by simp
qed

lemma populateLoop_total:
  assumes "db s \<noteq> None"
    and "\<forall>t\<in>set ts. chainPages k (remote ev) (localeText s) (root t) (endpoint t) \<noteq> None"
  shows "\<exists>s'. populateLoop k ev len i ts s = Some (Inr (), s')"
  using assms
proof (induction ts arbitrary: i s)
  case Nil
  show ?case by simp
next
  case (Cons t ts)
  obtain s1 where sync: "syncTable k ev (Some t) s = Some (Inr (), s1)"
    using syncTable_total [OF Cons.prems(1), of k ev t] Cons.prems(2) by auto
  have sy: "synced s s1"
    using syncTable_partial [OF Cons.prems(1) sync] by simp
  let ?s3 = "act (Delay 600) (dispatchEvent (Progress i len (tname t) (toFixed2 i len)) s1)"
  have same: "sameManager s ?s3"
    using sy by (simp add: synced_def sameManager_def act_def dispatchEvent_def)
  have db3: "db ?s3 \<noteq> None"
    using Cons.prems(1) same by (simp add: sameManager_def)
  have "\<forall>t\<in>set ts. chainPages k (remote ev) (localeText ?s3) (root t) (endpoint t) \<noteq> None"
    using Cons.prems(2) sameManager_localeText [OF same] by simp
  then obtain s' where "populateLoop k ev len (Suc i) ts ?s3 = Some (Inr (), s')"
    using Cons.IH [OF db3] by blast
  then show ?case
    using sync by (simp add: Let_def)
qed

lemma populateEmptyTables_run:
  assumes "db s \<noteq> None"
    and "\<forall>t\<in>set ts. chainPages k (remote ev) (localeText s) (root t) (endpoint t) \<noteq> None"
  shows "\<exists>s1. populateLoop k ev (length ts) 1 ts s = Some (Inr (), s1)
           \<and> populated (length ts) 1 ts s s1
           \<and> populateEmptyTables k ev ts s = Some (Inr (), dispatchEvent Ready s1)"
proof -
  obtain s1 where loop: "populateLoop k ev (length ts) 1 ts s = Some (Inr (), s1)"
    using populateLoop_total [OF assms] by blast
  have "populated (length ts) 1 ts s s1"
    using populateLoop_partial [OF assms(1) loop] by simp
  then show ?thesis
    using loop by (simp add: populateEmptyTables_def)
qed

section \<open>The progress fraction\<close>

lemma binExp_bounds_gen:
  "0 < i \<Longrightarrow> n \<le> i * 2 ^ binExp i n \<and> (0 < binExp i n \<longrightarrow> i * 2 ^ binExp i n < 2 * n)"
proof (induction i n rule: binExp.induct)
  case (1 i n)
  show ?case
  proof (cases "n \<le> i")
    case True
    then show ?thesis by (simp add: binExp.simps [of i n])
  next
    case False
    have pos: "0 < 2 * i" using "1.prems" by simp
    have IH: "n \<le> 2 * i * 2 ^ binExp (2 * i) n
              \<and> (0 < binExp (2 * i) n \<longrightarrow> 2 * i * 2 ^ binExp (2 * i) n < 2 * n)"
      using "1.IH" False "1.prems" pos by simp
    have eq: "binExp i n = Suc (binExp (2 * i) n)"
      using False "1.prems" by (simp add: binExp.simps [of i n])
    show ?thesis
    proof (cases "binExp (2 * i) n = 0")
      case True
      then show ?thesis using IH False eq by simp
    next
      case False
      then show ?thesis using IH eq by (simp add: mult.assoc mult.left_commute)
    qed
  qed
qed

lemma binExp_bounds:
  assumes "0 < i" and "i \<le> n"
  shows "n \<le> i * 2 ^ binExp i n" and "i * 2 ^ binExp i n < 2 * n"
proof -
  show "n \<le> i * 2 ^ binExp i n"
    using binExp_bounds_gen [OF assms(1)] by simp
  show "i * 2 ^ binExp i n < 2 * n"
  proof (cases "binExp i n = 0")
    case True
    then show ?thesis using assms by simp
  next
    case False
    then show ?thesis using binExp_bounds_gen [OF assms(1), of n] by simp
  qed
qed

lemma binExp_antimono:
  assumes "0 < i" and "i \<le> j" and "j \<le> n"
  shows "binExp j n \<le> binExp i n"
proof (rule ccontr)
  assume "\<not> binExp j n \<le> binExp i n"
  then have lt: "Suc (binExp i n) \<le> binExp j n" by simp
  have "(2::nat) ^ Suc (binExp i n) \<le> 2 ^ binExp j n"
    using lt by (rule power_increasing) simp
  then have "j * 2 ^ Suc (binExp i n) \<le> j * 2 ^ binExp j n"
    by (rule mult_le_mono2)
  also have "\<dots> < 2 * n"
    using binExp_bounds(2) [of j n] assms by simp
  finally have "j * 2 ^ binExp i n < n" by simp
  moreover have "n \<le> i * 2 ^ binExp i n"
    using binExp_bounds(1) [of i n] assms by simp
  moreover have "i * 2 ^ binExp i n \<le> j * 2 ^ binExp i n"
    using assms(2) by (rule mult_le_mono1)
  ultimately show False by simp
qed

lemma roundHalfEven_between:
  "a div n \<le> roundHalfEven a n \<and> roundHalfEven a n \<le> a div n + 1"
  by (simp add: roundHalfEven_def Let_def)

lemma roundHalfEven_mono:
  assumes "0 < n" and "a \<le> b"
  shows "roundHalfEven a n \<le> roundHalfEven b n"
proof (cases "a div n = b div n")
  case True
  have "a = a div n * n + a mod n" and "b = b div n * n + b mod n"
    by simp_all
  then have "a mod n \<le> b mod n"
    using assms(2) True by (metis add_le_cancel_left)
  then show ?thesis
    using True by (auto simp: roundHalfEven_def Let_def)
next
  case False
  have "a div n \<le> b div n"
    using assms(2) by (rule div_le_mono)
  then have "a div n + 1 \<le> b div n"
    using False by simp
  then show ?thesis
    using roundHalfEven_between [of a n] roundHalfEven_between [of b n] by linarith
qed

lemma roundHalfEven_lower: "0 < n \<Longrightarrow> q * n \<le> a \<Longrightarrow> q \<le> roundHalfEven a n"
proof -
  assume n: "0 < n" and le: "q * n \<le> a"
  have "q * n div n \<le> a div n" using le by (rule div_le_mono)
  then have "q \<le> a div n" using n by simp
  then show ?thesis using roundHalfEven_between [of a n] by linarith
qed

lemma roundHalfEven_upper: "a < q * n \<Longrightarrow> roundHalfEven a n \<le> q"
proof -
  assume lt: "a < q * n"
  then have "a div n < q"
    by (metis div_less_iff_less_mult mult_is_0 not_less_zero gr0I)
  then show ?thesis using roundHalfEven_between [of a n] by linarith
qed

lemma fixed_mono:
  fixes m m' :: nat
  assumes "e' \<le> e" and "m * 2 ^ e' \<le> m' * 2 ^ e"
  shows "(200 * m + 2 ^ e) div 2 ^ (e + 1) \<le> (200 * m' + 2 ^ e') div 2 ^ (e' + 1)"
proof -
  obtain d where e: "e = e' + d"
    using assms(1) le_Suc_ex by blast
  have "m * 2 ^ e' \<le> (m' * 2 ^ d) * 2 ^ e'"
    using assms(2) by (simp add: e power_add mult.assoc mult.left_commute)
  then have m: "m \<le> m' * 2 ^ d"
    by simp
  have "(200 * m' + 2 ^ e') div 2 ^ (e' + 1)
          = ((200 * m' + 2 ^ e') * 2 ^ d) div (2 ^ (e' + 1) * 2 ^ d)"
    by simp
  also have "\<dots> = (200 * (m' * 2 ^ d) + 2 ^ e) div 2 ^ (e + 1)"
    by (simp add: e power_add algebra_simps)
  finally have rhs: "(200 * m' + 2 ^ e') div 2 ^ (e' + 1)
                       = (200 * (m' * 2 ^ d) + 2 ^ e) div 2 ^ (e + 1)" .
  have "200 * m + 2 ^ e \<le> 200 * (m' * 2 ^ d) + 2 ^ e"
    using m by simp
  then have "(200 * m + 2 ^ e) div 2 ^ (e + 1) \<le> (200 * (m' * 2 ^ d) + 2 ^ e) div 2 ^ (e + 1)"
    by (rule div_le_mono)
  then show ?thesis
    using rhs by simp
qed

lemma divDouble_value_mono:
  assumes "0 < i" and "i \<le> j" and "j \<le> n"
  shows "fst (divDouble i n) * 2 ^ snd (divDouble j n)
           \<le> fst (divDouble j n) * 2 ^ snd (divDouble i n)"
proof -
  let ?ki = "binExp i n" and ?kj = "binExp j n"
  let ?mi = "roundHalfEven (i * 2 ^ (52 + ?ki)) n" and ?mj = "roundHalfEven (j * 2 ^ (52 + ?kj)) n"
  have n: "0 < n" and j: "0 < j" and i: "i \<le> n"
    using assms by simp_all
  have k: "?kj \<le> ?ki"
    using binExp_antimono [OF assms] .
  have goal: "?mi * 2 ^ (52 + ?kj) \<le> ?mj * 2 ^ (52 + ?ki)"
  proof (cases "?kj = ?ki")
    case True
    have "i * 2 ^ (52 + ?ki) \<le> j * 2 ^ (52 + ?ki)"
      using assms(2) by (rule mult_le_mono1)
    then have "?mi \<le> roundHalfEven (j * 2 ^ (52 + ?ki)) n"
      using roundHalfEven_mono [OF n] by blast
    then show ?thesis
      using True by simp
  next
    case False
    then have lt: "Suc ?kj \<le> ?ki"
      using k by simp
    have "i * 2 ^ ?ki * 2 ^ 52 < 2 * n * 2 ^ 52"
      using binExp_bounds(2) [OF assms(1) i] by simp
    then have "i * 2 ^ (52 + ?ki) < 2 ^ 53 * n"
      by (simp add: power_add mult.assoc mult.left_commute mult.commute)
    then have up: "?mi \<le> 2 ^ 53"
      by (rule roundHalfEven_upper)
    have "n * 2 ^ 52 \<le> j * 2 ^ ?kj * 2 ^ 52"
      using binExp_bounds(1) [OF j assms(3)] by simp
    then have "2 ^ 52 * n \<le> j * 2 ^ (52 + ?kj)"
      by (simp add: power_add mult.assoc mult.left_commute mult.commute)
    then have low: "2 ^ 52 \<le> ?mj"
      using roundHalfEven_lower [OF n] by blast
    have "?mi * 2 ^ (52 + ?kj) \<le> 2 ^ 53 * 2 ^ (52 + ?kj)"
      using up by (rule mult_le_mono1)
    also have "\<dots> = 2 ^ 52 * 2 ^ (52 + Suc ?kj)"
      by (simp add: power_add)
    also have "\<dots> \<le> 2 ^ 52 * 2 ^ (52 + ?ki)"
      using lt by (intro mult_le_mono2 power_increasing) simp_all
    also have "\<dots> \<le> ?mj * 2 ^ (52 + ?ki)"
      using low by (rule mult_le_mono1)
    finally show ?thesis .
  qed
  show ?thesis
    using goal by (simp add: divDouble_def Let_def)
qed

lemma hundredths_mono:
  assumes "0 < i" and "i \<le> j" and "j \<le> n"
  shows "hundredths i n \<le> hundredths j n"
proof -
  have k: "snd (divDouble j n) \<le> snd (divDouble i n)"
    using binExp_antimono [OF assms] by (simp add: divDouble_def Let_def)
  show ?thesis
    using fixed_mono [OF k divDouble_value_mono [OF assms]]
    by (simp add: hundredths_def split_beta)
qed

lemma hundredths_full: "0 < n \<Longrightarrow> hundredths n n = 100"
  by (simp add: hundredths_def divDouble_def roundHalfEven_def Let_def binExp.simps [of n n])

lemma hundredths_le: "0 < i \<Longrightarrow> i \<le> n \<Longrightarrow> hundredths i n \<le> 100"
  using hundredths_mono [of i n n] hundredths_full [of n] by simp

lemma decimal_one: "N < 10 \<Longrightarrow> decimal N = [48 + N]"
  by (subst decimal.simps) simp

lemma decimal_two: "10 \<le> N \<Longrightarrow> N < 100 \<Longrightarrow> decimal N = [48 + N div 10, 48 + N mod 10]"
  by (subst decimal.simps) (simp add: decimal_one)

lemma div10_range: "100 \<le> N \<Longrightarrow> N < 1000 \<Longrightarrow> 10 \<le> N div 10 \<and> N div 10 < 100"
  for N :: nat
  by arith

lemma div10_div10: "N div 10 div 10 = N div 100" for N :: nat
  by (simp add: div_mult2_eq [symmetric])

lemma decimal_unfold: "10 \<le> N \<Longrightarrow> decimal N = decimal (N div 10) @ [48 + N mod 10]"
  by (subst decimal.simps) simp

lemma decimal_three:
  assumes "100 \<le> N" and "N < 1000"
  shows "decimal N = [48 + N div 100, 48 + N div 10 mod 10, 48 + N mod 10]"
proof -
  have "decimal (N div 10) = [48 + N div 10 div 10, 48 + N div 10 mod 10]"
    using div10_range [OF assms] by (simp only: decimal_two)
  moreover have "decimal N = decimal (N div 10) @ [48 + N mod 10]"
    using assms(1) by (intro decimal_unfold) simp
  ultimately show ?thesis
    by (simp add: div10_div10)
qed

lemma fixed2_shape:
  assumes "N < 1000"
  shows "fixed2 N = [48 + N div 100, 46, 48 + N div 10 mod 10, 48 + N mod 10]"
proof -
  consider "N < 10" | "10 \<le> N" "N < 100" | "100 \<le> N"
    by linarith
  then show ?thesis
  proof cases
    case 1
    have "replicate (3 - length [48 + N]) (48::nat) = [48, 48]"
      by (simp add: numeral_2_eq_2)
    then show ?thesis
      using 1 by (simp add: fixed2_def decimal_one Let_def)
  next
    case 2
    then show ?thesis
      by (simp add: fixed2_def decimal_two Let_def)
  next
    case 3
    then show ?thesis
      using assms by (simp add: fixed2_def decimal_three Let_def)
  qed
qed

lemma digits_sum: "100 * (N div 100) + 10 * (N div 10 mod 10) + N mod 10 = N" for N :: nat
proof -
  have "N mod 100 = 10 * (N div 10 mod 10) + N mod 10"
    using mod_mult2_eq [of N 10 10] by simp
  moreover have "100 * (N div 100) + N mod 100 = N"
    by simp
  ultimately show ?thesis
    by linarith
qed

lemma readFixed2_fixed2:
  assumes "N < 1000"
  shows "readFixed2 (fixed2 N) = N"
  using digits_sum [of N]
  by (simp add: fixed2_shape [OF assms] readFixed2_def digitsValue_def)

lemma toFixed2_full: "0 < n \<Longrightarrow> toFixed2 n n = str ''1.00''"
  by (simp add: toFixed2_def hundredths_full fixed2_shape str_def)

lemma roundHalfEven_error:
  assumes "0 < n"
  shows "2 * (n * roundHalfEven a n) \<le> 2 * a + n"
    and "2 * a \<le> 2 * (n * roundHalfEven a n) + n"
proof -
  define q where "q = a div n"
  define r where "r = a mod n"
  have a: "a = n * q + r"
    by (simp add: q_def r_def)
  have r: "r < n"
    using assms by (simp add: r_def)
  have m: "roundHalfEven a n = q \<and> 2 * r \<le> n \<or> roundHalfEven a n = q + 1 \<and> n \<le> 2 * r"
    by (auto simp: roundHalfEven_def Let_def q_def r_def)
  show "2 * (n * roundHalfEven a n) \<le> 2 * a + n"
    using m r by (auto simp: a algebra_simps)
  show "2 * a \<le> 2 * (n * roundHalfEven a n) + n"
    using m r by (auto simp: a algebra_simps)
qed

lemma cancel_scale_le:
  fixes A B C K :: nat
  assumes "A * K \<le> B * K + C" and "0 < K"
  shows "A \<le> B + C"
proof (rule ccontr)
  assume "\<not> A \<le> B + C"
  then have "B + C + 1 \<le> A" by simp
  then have "(B + C + 1) * K \<le> A * K" by (rule mult_le_mono1)
  moreover have "C \<le> C * K" using assms(2) by simp
  ultimately show False using assms by (simp add: algebra_simps)
qed

lemma cancel_scale_less:
  fixes A B C K :: nat
  assumes "A * K < B * K + C" and "0 < K"
  shows "A < B + C"
proof (rule ccontr)
  assume "\<not> A < B + C"
  then have "B + C \<le> A" by simp
  then have "(B + C) * K \<le> A * K" by (rule mult_le_mono1)
  moreover have "C \<le> C * K" using assms(2) by simp
  ultimately show False using assms(1) by (simp add: algebra_simps)
qed


lemma hundredths_bounds:
  assumes "0 < i" and "i \<le> n"
  shows "(2 * 2 ^ 52 * hundredths i n * n) \<le> (200 * i * 2 ^ 52 + 2 ^ 52 * n) + 100 * n"
    and "200 * i * 2 ^ 52 < (2 * 2 ^ 52 * hundredths i n * n + 2 ^ 52 * n) + 100 * n"
proof -
  define K :: nat where "K = 2 ^ binExp i n"
  define E :: nat where "E = 2 ^ 52 * K"
  define m where "m = roundHalfEven (i * E) n"
  define N where "N = hundredths i n"
  have n: "0 < n"
    using assms by simp
  have K: "0 < K"
    by (simp add: K_def)
  have E: "0 < E"
    by (simp add: E_def K_def)
  have pow: "(2::nat) ^ (52 + binExp i n) = E"
    by (simp add: E_def K_def power_add)
  have N: "N = (200 * m + E) div (2 * E)"
    by (simp add: N_def hundredths_def divDouble_def Let_def pow m_def)
  have d1: "2 * E * N \<le> 200 * m + E"
    unfolding N by (metis div_times_less_eq_dividend mult.commute)
  have d2: "200 * m + E < 2 * E * N + 2 * E"
    unfolding N using dividend_less_div_times [of "2 * E" "200 * m + E"] E
    by (simp add: mult.commute add.commute)
  have r1: "2 * (n * m) \<le> 2 * (i * E) + n" and r2: "2 * (i * E) \<le> 2 * (n * m) + n"
    unfolding m_def using roundHalfEven_error [OF n, of "i * E"] by simp_all
  have "(2 * E * N) * n \<le> (200 * m + E) * n"
    using d1 by (rule mult_le_mono1)
  then have d1n: "2 * (E * N * n) \<le> 200 * (n * m) + E * n"
    by (simp add: algebra_simps)
  have "(200 * m + E) * n < (2 * E * N + 2 * E) * n"
    using d2 n by simp
  then have d2n: "200 * (n * m) + E * n < 2 * (E * N * n) + 2 * (E * n)"
    by (simp add: algebra_simps)
  have UE: "2 * (E * N * n) \<le> (200 * (i * E) + E * n) + 100 * n"
    using d1n r1 by linarith
  have LE: "200 * (i * E) < (2 * (E * N * n) + E * n) + 100 * n"
    using d2n r2 by linarith
  have "(2 * 2 ^ 52 * N * n) * K \<le> (200 * i * 2 ^ 52 + 2 ^ 52 * n) * K + 100 * n"
    using UE by (simp add: E_def algebra_simps)
  then have U: "2 * 2 ^ 52 * N * n \<le> (200 * i * 2 ^ 52 + 2 ^ 52 * n) + 100 * n"
    using K by (rule cancel_scale_le)
  have "(200 * i * 2 ^ 52) * K < (2 * 2 ^ 52 * N * n + 2 ^ 52 * n) * K + 100 * n"
    using LE by (simp add: E_def algebra_simps)
  then have L: "200 * i * 2 ^ 52 < (2 * 2 ^ 52 * N * n + 2 ^ 52 * n) + 100 * n"
    using K by (rule cancel_scale_less)
  show "(2 * 2 ^ 52 * hundredths i n * n) \<le> (200 * i * 2 ^ 52 + 2 ^ 52 * n) + 100 * n"
    using U by (simp add: N_def)
  show "200 * i * 2 ^ 52 < (2 * 2 ^ 52 * hundredths i n * n + 2 ^ 52 * n) + 100 * n"
    using L by (simp add: N_def)
qed


lemma hundredths_strict:
  assumes "0 < i" and "i < j" and "j \<le> n" and "n \<le> 100"
  shows "hundredths i n < hundredths j n"
proof (rule ccontr)
  assume "\<not> hundredths i n < hundredths j n"
  then have le: "hundredths j n \<le> hundredths i n"
    by simp
  define X where "X = hundredths i n * n"
  define Y where "Y = hundredths j n * n"
  have YX: "Y \<le> X"
    unfolding X_def Y_def using le by (rule mult_le_mono1)
  have U: "2 * 2 ^ 52 * X \<le> (200 * i * 2 ^ 52 + 2 ^ 52 * n) + 100 * n"
    using hundredths_bounds(1) [of i n] assms by (simp add: X_def mult.assoc)
  have L: "200 * j * 2 ^ 52 < (2 * 2 ^ 52 * Y + 2 ^ 52 * n) + 100 * n"
    using hundredths_bounds(2) [of j n] assms by (simp add: Y_def mult.assoc)
  show False
  proof (cases "n = 100")
    case False
    then have "n \<le> 99"
      using assms(4) by simp
    then show False
      using U L YX assms(2) by simp
  next
    case True
    have "hundredths i n \<le> i"
    proof (rule ccontr)
      assume "\<not> hundredths i n \<le> i"
      then have "i + 1 \<le> hundredths i n" by simp
      then have "(i + 1) * n \<le> X"
        unfolding X_def by (rule mult_le_mono1)
      then show False
        using U by (simp add: True)
    qed
    moreover have "j \<le> hundredths j n"
    proof (rule ccontr)
      assume "\<not> j \<le> hundredths j n"
      then have "hundredths j n + 1 \<le> j" by simp
      then have "(hundredths j n + 1) * n \<le> j * n"
        by (rule mult_le_mono1)
      then have "Y + n \<le> j * n"
        by (simp add: Y_def)
      then show False
        using L by (simp add: True)
    qed
    ultimately show False
      using le assms(2) by simp
  qed
qed

section \<open>The progress events of a run\<close>

lemma progressFrom_length: "length (progressFrom len i ts) = length ts"
  by (induction ts arbitrary: i) simp_all

lemma progressFrom_index: "map detailIndex (progressFrom len i ts) = [i..<i + length ts]"
  by (induction ts arbitrary: i) (simp_all add: upt_rec)


lemma progressFrom_nth:
  "j < length ts \<Longrightarrow>
     progressFrom len i ts ! j = Progress (i + j) len (tname (ts ! j)) (toFixed2 (i + j) len)"
proof (induction ts arbitrary: i j)
  case Nil
  then show ?case by simp
next
  case (Cons t ts)
  show ?case
  proof (cases j)
    case 0
    then show ?thesis by simp
  next
    case (Suc j')
    then show ?thesis using Cons.prems Cons.IH [of j' "Suc i"] by simp
  qed
qed

lemma progressFrom_filter: "filter isProgress (progressFrom len i ts) = progressFrom len i ts"
  by (induction ts arbitrary: i) simp_all

lemma progressFrom_set:
  "e \<in> set (progressFrom len i ts) \<Longrightarrow>
     \<exists>j nm. i \<le> j \<and> j < i + length ts \<and> e = Progress j len nm (toFixed2 j len)"
proof (induction ts arbitrary: i)
  case Nil
  then show ?case by simp
next
  case (Cons t ts)
  show ?case
  proof (cases "e = Progress i len (tname t) (toFixed2 i len)")
    case True
    then show ?thesis by auto
  next
    case False
    then have "e \<in> set (progressFrom len (Suc i) ts)"
      using Cons.prems by simp
    then obtain j nm where "Suc i \<le> j" "j < Suc i + length ts" "e = Progress j len nm (toFixed2 j len)"
      using Cons.IH by blast
    then show ?thesis
      by (intro exI [of _ j] exI [of _ nm]) simp
  qed
qed

lemma detailValue_Progress: "detailValue (Progress i n nm p) = readFixed2 p"
  by (simp add: detailValue_def)

lemma progressFrom_sorted:
  assumes "0 < i" and "i + length ts \<le> Suc len"
  shows "sorted (map detailValue (progressFrom len i ts))"
  using assms
proof (induction ts arbitrary: i)
  case Nil
  show ?case by simp
next
  case (Cons t ts)
  have i: "i \<le> len"
    using Cons.prems by simp
  have rest: "sorted (map detailValue (progressFrom len (Suc i) ts))"
    using Cons.IH [of "Suc i"] Cons.prems by simp
  have "detailValue (Progress i len (tname t) (toFixed2 i len)) \<le> detailValue e"
    if mem: "e \<in> set (progressFrom len (Suc i) ts)" for e
  proof -
    obtain j nm where j: "Suc i \<le> j" "j < Suc i + length ts"
      and e: "e = Progress j len nm (toFixed2 j len)"
      using progressFrom_set [OF mem] by blast
    have jl: "j \<le> len"
      using j Cons.prems by simp
    have "hundredths i len \<le> hundredths j len"
      using hundredths_mono [of i j len] Cons.prems(1) j(1) jl by simp
    moreover have "hundredths i len < 1000" "hundredths j len < 1000"
      using hundredths_le [of i len] hundredths_le [of j len] Cons.prems(1) i j(1) jl by simp_all
    ultimately show ?thesis
      by (simp add: e toFixed2_def readFixed2_fixed2 detailValue_Progress)
  qed
  then show ?case
    using rest by simp
qed

lemma progressFrom_strict:
  assumes "0 < i" and "i + length ts \<le> Suc len" and "len \<le> 100"
  shows "sorted_wrt (<) (map detailValue (progressFrom len i ts))"
  using assms(1,2)
proof (induction ts arbitrary: i)
  case Nil
  show ?case by simp
next
  case (Cons t ts)
  have i: "i \<le> len"
    using Cons.prems by simp
  have rest: "sorted_wrt (<) (map detailValue (progressFrom len (Suc i) ts))"
    using Cons.IH [of "Suc i"] Cons.prems by simp
  have "detailValue (Progress i len (tname t) (toFixed2 i len)) < detailValue e"
    if mem: "e \<in> set (progressFrom len (Suc i) ts)" for e
  proof -
    obtain j nm where j: "Suc i \<le> j" "j < Suc i + length ts"
      and e: "e = Progress j len nm (toFixed2 j len)"
      using progressFrom_set [OF mem] by blast
    have jl: "j \<le> len"
      using j Cons.prems by simp
    have "hundredths i len < hundredths j len"
      using hundredths_strict [of i j len] Cons.prems(1) j(1) jl assms(3) by simp
    moreover have "hundredths i len < 1000" "hundredths j len < 1000"
      using hundredths_le [of i len] hundredths_le [of j len] Cons.prems(1) i j(1) jl by simp_all
    ultimately show ?thesis
      by (simp add: e toFixed2_def readFixed2_fixed2 detailValue_Progress)
  qed
  then show ?case
    using rest by simp
qed

lemma progressFrom_last:
  "ts \<noteq> [] \<Longrightarrow>
     last (progressFrom len i ts)
       = Progress (i + length ts - 1) len (tname (last ts)) (toFixed2 (i + length ts - 1) len)"
proof (induction ts arbitrary: i)
  case Nil
  then show ?case by simp
next
  case (Cons t ts)
  show ?case
  proof (cases "ts = []")
    case True
    then show ?thesis by simp
  next
    case False
    then have "progressFrom len (Suc i) ts \<noteq> []"
      using progressFrom_length [of len "Suc i" ts] by auto
    then show ?thesis
      using Cons.IH [OF False, of "Suc i"] False by simp
  qed
qed

section \<open>Population: events, failures and the progress string\<close>

lemma toFixed2_half: "toFixed2 (Suc 0) 2 = str ''0.50''"
  by (simp add: toFixed2_def hundredths_def divDouble_def roundHalfEven_def Let_def
      binExp.simps fixed2_shape str_def)

lemma offline_chain: "chainPages 1 (remote offline) loc rt ep \<noteq> None"
  by (simp add: offline_def noNetwork_def)

text \<open>
  C2, as the code has it. When the handle exists, the list is not empty and every table's
  cursor chain ends within the page bound, \<open>populateEmptyTables\<close> returns normally and
  the events it has dispatched are exactly one \<open>database:progress\<close> event per table
  followed by one \<open>database:ready\<close>: as many progress events as tables, with
  \<open>currentIndex\<close> 1, 2, ..., n in order, with progress values that never decrease and,
  for up to 100 tables, strictly increase, the last one being \<open>1.00\<close>.
\<close>

theorem populateEmptyTables_events:
  assumes "db s \<noteq> None" and "tables \<noteq> []"
    and "\<forall>t\<in>set tables. chainPages k (remote ev) (localeText s) (root t) (endpoint t) \<noteq> None"
  shows "\<exists>s'. populateEmptyTables k ev tables s = Some (Inr (), s')
           \<and> events (log s')
               = events (log s) @ progressFrom (length tables) 1 tables @ [Ready]
           \<and> length (progressFrom (length tables) 1 tables) = length tables
           \<and> map detailIndex (progressFrom (length tables) 1 tables) = [1..<Suc (length tables)]
           \<and> sorted (map detailValue (progressFrom (length tables) 1 tables))
           \<and> (length tables \<le> 100
                \<longrightarrow> sorted_wrt (<) (map detailValue (progressFrom (length tables) 1 tables)))
           \<and> detailProgress (last (progressFrom (length tables) 1 tables)) = str ''1.00''"
proof -
  obtain s1 where pop: "populated (length tables) 1 tables s s1"
    and run: "populateEmptyTables k ev tables s = Some (Inr (), dispatchEvent Ready s1)"
    using populateEmptyTables_run [OF assms(1,3)] by blast
  have ev: "events (log (dispatchEvent Ready s1))
              = events (log s) @ progressFrom (length tables) 1 tables @ [Ready]"
    using pop by (simp add: populated_def dispatchEvent_def act_def events_append)
  have "0 < length tables"
    using assms(2) by simp
  then have fin: "detailProgress (last (progressFrom (length tables) 1 tables)) = str ''1.00''"
    using assms(2) by (simp add: progressFrom_last toFixed2_full)
  have srt: "sorted (map detailValue (progressFrom (length tables) 1 tables))"
    by (rule progressFrom_sorted) simp_all
  have strict: "sorted_wrt (<) (map detailValue (progressFrom (length tables) 1 tables))"
    if "length tables \<le> 100"
    using that by (intro progressFrom_strict) simp_all
  show ?thesis
    using run ev fin srt strict by (simp add: progressFrom_length progressFrom_index)
qed

theorem populateEmptyTables_events_witness:
  "\<exists>s'. populateEmptyTables 1 offline [pokemonTable, itemTable] opened = Some (Inr (), s')
         \<and> events (log s')
             = events (log opened)
                 @ [Progress 1 2 (str ''pokemon'') (str ''0.50''),
                    Progress 2 2 (str ''item'') (str ''1.00''), Ready]"
proof -
  have d: "db opened \<noteq> None"
    by (simp add: opened_state)
  have n: "[pokemonTable, itemTable] \<noteq> []"
    by simp
  have c: "\<forall>t\<in>set [pokemonTable, itemTable].
             chainPages 1 (remote offline) (localeText opened) (root t) (endpoint t) \<noteq> None"
    using offline_chain by blast
  have two: "Suc (Suc 0) = 2"
    by simp
  show ?thesis
    using populateEmptyTables_events [OF d n c]
    by (auto simp: two toFixed2_half toFixed2_full pokemonTable_def itemTable_def)
qed


lemma toFixed2_50_101: "toFixed2 50 101 = str ''0.50''"
  by (simp add: toFixed2_def hundredths_def divDouble_def roundHalfEven_def Let_def
      binExp.simps fixed2_shape str_def)

lemma toFixed2_51_101: "toFixed2 51 101 = str ''0.50''"
  by (simp add: toFixed2_def hundredths_def divDouble_def roundHalfEven_def Let_def
      binExp.simps fixed2_shape str_def)

lemma manyTables_length: "length manyTables = 101"
  by (simp add: manyTables_def)

lemma manyTables_progress:
  "progressOf (populateEmptyTables 1 offline manyTables opened)
     = map detailProgress (progressFrom 101 1 manyTables)"
proof -
  have d: "db opened \<noteq> None"
    by (simp add: opened_state)
  have c: "\<forall>t\<in>set manyTables.
             chainPages 1 (remote offline) (localeText opened) (root t) (endpoint t) \<noteq> None"
    using offline_chain by blast
  obtain s1 where pop: "populated (length manyTables) 1 manyTables opened s1"
    and run: "populateEmptyTables 1 offline manyTables opened
                = Some (Inr (), dispatchEvent Ready s1)"
    using populateEmptyTables_run [OF d c] by blast
  have "events (log (dispatchEvent Ready s1))
          = events (log opened) @ progressFrom 101 1 manyTables @ [Ready]"
    using pop by (simp add: populated_def dispatchEvent_def act_def events_append manyTables_length)
  moreover have "filter isProgress (events (log opened)) = []"
    by (simp add: opened_state)
  ultimately have "filter isProgress (events (log (dispatchEvent Ready s1)))
                     = progressFrom 101 1 manyTables"
    by (simp add: progressFrom_filter)
  then show ?thesis
    using run by simp
qed

text \<open>
  The progress values are not always strictly increasing: with 101 tables, none of which
  can be fetched, the 50th and the 51st progress event both carry \<open>0.50\<close>.
\<close>

theorem progress_not_strict_counterexample:
  "length manyTables = 101
   \<and> progressOf (populateEmptyTables 1 offline manyTables opened) ! 49 = str ''0.50''
   \<and> progressOf (populateEmptyTables 1 offline manyTables opened) ! 50 = str ''0.50''"
proof -
  have a: "progressFrom 101 1 manyTables ! 49
             = Progress 50 101 (tname (manyTables ! 49)) (toFixed2 50 101)"
    using progressFrom_nth [of 49 manyTables 101 1] by (simp add: manyTables_length)
  have b: "progressFrom 101 1 manyTables ! 50
             = Progress 51 101 (tname (manyTables ! 50)) (toFixed2 51 101)"
    using progressFrom_nth [of 50 manyTables 101 1] by (simp add: manyTables_length)
  have l: "length (progressFrom 101 1 manyTables) = 101"
    by (simp add: progressFrom_length manyTables_length)
  show ?thesis
    unfolding manyTables_progress
    using a b l by (simp add: manyTables_length toFixed2_50_101 toFixed2_51_101)
qed


lemma offline_urls:
  "fullUrl opened pokemonTable = str ''https://api/en/pokemon''"
  "fullUrl opened itemTable = str ''https://api/en/item''"
  by (simp_all add: fullUrl_def replaceFirst_def localeText_def opened_state pokemonTable_def
      itemTable_def str_def)





section \<open>The requests of a run of \<open>fetchTable\<close>\<close>

lemma chainPages_isChain:
  assumes "chainPages k rem loc rt ep = Some ps"
  shows "ps \<noteq> [] \<and> fst (hd ps) = replaceFirst (str ''{locale}'') loc (rt @ ep)
         \<and> isChain rem loc rt (map fst ps)"
  using assms
proof (induction k arbitrary: ep ps)
  case 0
  then show ?case by simp
next
  case (Suc k)
  let ?url = "replaceFirst (str ''{locale}'') loc (rt @ ep)"
  show ?case
  proof (cases "followUp (rem ?url)")
    case None
    then have "ps = [(?url, snd (hd ps))]"
      using Suc.prems
      by (auto simp: Let_def split: response.splits body.splits option.splits if_splits)
    then obtain ms where "ps = [(?url, ms)]"
      by blast
    then show ?thesis
      using None by simp
  next
    case (Some c)
    then obtain ms view where resp: "rem ?url = Json (BData (Some ms) view)"
      and ms: "ms \<noteq> []" and nx: "nextCursor view = Some c"
      by (cases "rem ?url" rule: followUp.cases) (auto split: if_splits)
    obtain qs where qs: "chainPages k rem loc rt c = Some qs" and ps: "ps = (?url, ms) # qs"
      using Suc.prems resp ms nx by (auto simp: Let_def)
    have IH: "qs \<noteq> [] \<and> fst (hd qs) = replaceFirst (str ''{locale}'') loc (rt @ c)
              \<and> isChain rem loc rt (map fst qs)"
      using Suc.IH [OF qs] .
    then obtain q qs' where q: "qs = q # qs'"
      by (cases qs) auto
    have a: "fst q = replaceFirst (str ''{locale}'') loc (rt @ c)"
      using IH unfolding q by simp
    have "isChain rem loc rt (map fst (q # qs'))"
      using IH unfolding q by (rule conjunct2 [OF conjunct2])
    then have "isChain rem loc rt (replaceFirst (str ''{locale}'') loc (rt @ c) # map fst qs')"
      by (simp only: list.map a)
    then show ?thesis
      using Some a by (simp add: ps q)
  qed
qed

section \<open>Following the cursor, and tables whose fetch failed\<close>

lemma fetchTable_empty_page:
  assumes "db s \<noteq> None" and "remote ev (fullUrl s t) = Json (BData mem view)"
    and "mem = None \<or> mem = Some []"
  shows "fetchTable (Suc k) ev (Some t) s = Some (Inr (), act (Fetch (fullUrl s t)) s)"
  using assms by (auto simp: Let_def)

lemma remote_only: "tableBound (ev\<lparr>remote := r\<rparr>) s n = tableBound ev s n"
proof -
  have "handleMember (ev\<lparr>remote := r\<rparr>) n = handleMember ev n"
    by (simp add: handleMember_def)
  then have "tableDefined (ev\<lparr>remote := r\<rparr>) s n = tableDefined ev s n"
    by (cases "db s") (simp_all add: tableDefined_def)
  moreover have "handleError (ev\<lparr>remote := r\<rparr>) s = handleError ev s"
    by (cases "dbStatus s") (simp_all add: handleError_def)
  ultimately show ?thesis
    by (simp add: tableBound_def)
qed

lemma secondPageDown_bound:
  "tableBound secondPageDown opened (tname pokemonTable)"
  "tableBound secondPageDown opened (tname itemTable)"
  using opened_bound by (simp_all add: secondPageDown_def remote_only)

lemma twoPages_bound: "tableBound twoPages opened (tname pokemonTable)"
  using opened_bound(1) by (simp add: twoPages_def remote_only)

lemma pokemon_urls:
  "replaceFirst (str ''{locale}'') (str ''en'') (root pokemonTable @ endpoint pokemonTable)
     = str ''https://api/en/pokemon''"
  "replaceFirst (str ''{locale}'') (str ''en'') (root pokemonTable @ str ''/en/pokemon?page=2'')
     = str ''https://api/en/pokemon?page=2''"
  by (simp_all add: replaceFirst_def pokemonTable_def str_def)

lemma page2_neq: "str ''https://api/en/pokemon?page=2'' \<noteq> str ''https://api/en/pokemon''"
  by (simp add: str_def)

lemma cursor_nonempty: "str ''/en/pokemon?page=2'' \<noteq> []"
  by (simp add: str_def)

lemma twoPages_chain:
  "chainPages 2 (remote twoPages) (localeText opened) (root pokemonTable) (endpoint pokemonTable)
     = Some [(str ''https://api/en/pokemon'', [(1, str ''bulbasaur'')]),
             (str ''https://api/en/pokemon?page=2'', [(2, str ''ivysaur'')])]"
proof -
  have two: "2 = Suc (Suc 0)"
    by simp
  have loc: "localeText opened = str ''en''"
    by (simp add: localeText_def opened_fields)
  show ?thesis
    unfolding two loc
    by (simp add: pokemon_urls page2_neq cursor_nonempty twoPages_def twoPagesRemote_def Let_def)
qed

lemma secondPageDown_chain:
  "chainPages 2 (remote secondPageDown) (localeText opened) (root pokemonTable)
       (endpoint pokemonTable)
     = Some [(str ''https://api/en/pokemon'', [(1, str ''bulbasaur'')]),
             (str ''https://api/en/pokemon?page=2'', [])]"
proof -
  have two: "2 = Suc (Suc 0)"
    by simp
  have loc: "localeText opened = str ''en''"
    by (simp add: localeText_def opened_fields)
  show ?thesis
    unfolding two loc
    by (simp add: pokemon_urls page2_neq cursor_nonempty secondPageDown_def secondPageDownRemote_def Let_def)
qed


text \<open>
  What \<open>fetchTable\<close> does on a table that can be written, when the cursor chain ends
  within the page bound: it returns normally and its requests form a chain that starts at
  the table's URL, in which every response that has members and a non-empty \<open>view.next\<close>
  is followed by the request against root and cursor. A response whose member list is
  absent or empty inserts nothing, logs no error and ends the run, whatever cursor it has.
\<close>

lemma fetchTable_follows_chain:
  assumes "tableBound ev s (tname t)"
    and "chainPages k (remote ev) (localeText s) (root t) (endpoint t) \<noteq> None"
  shows "(\<exists>s' us. fetchTable k ev (Some t) s = Some (Inr (), s')
            \<and> requests (log s') = requests (log s) @ us
            \<and> hd us = fullUrl s t
            \<and> isChain (remote ev) (localeText s) (root t) us)
         \<and> (\<forall>mem view.
               remote ev (fullUrl s t) = Json (BData mem view) \<and> (mem = None \<or> mem = Some [])
               \<longrightarrow> fetchTable k ev (Some t) s = Some (Inr (), act (Fetch (fullUrl s t)) s))"
proof -
  obtain ps where ps: "chainPages k (remote ev) (localeText s) (root t) (endpoint t) = Some ps"
    using assms(2) by auto
  obtain s' where run: "fetchTable k ev (Some t) s = Some (Inr (), s')"
    and f: "fetched ev (tname t) ps s s'"
    using fetchTable_chain [OF assms(1), of k] ps by auto
  have chain: "ps \<noteq> [] \<and> fst (hd ps) = fullUrl s t
               \<and> isChain (remote ev) (localeText s) (root t) (map fst ps)"
    using chainPages_isChain [OF ps] by (simp add: fullUrl_def)
  then have "hd (map fst ps) = fullUrl s t"
    by (simp add: hd_map)
  then have first: "\<exists>s' us. fetchTable k ev (Some t) s = Some (Inr (), s')
            \<and> requests (log s') = requests (log s) @ us
            \<and> hd us = fullUrl s t
            \<and> isChain (remote ev) (localeText s) (root t) us"
    using run f chain by (intro exI [of _ s'] exI [of _ "map fst ps"]) (simp add: fetched_def)
  obtain k' where k: "k = Suc k'"
    using ps by (cases k) auto
  have d: "db s \<noteq> None"
    using assms(1) by (auto simp: tableBound_def tableDefined_def split: option.splits)
  have second: "fetchTable k ev (Some t) s = Some (Inr (), act (Fetch (fullUrl s t)) s)"
    if "remote ev (fullUrl s t) = Json (BData mem view) \<and> (mem = None \<or> mem = Some [])"
    for mem view
    using that fetchTable_empty_page [OF d, of ev t mem view k'] unfolding k by blast
  show ?thesis
    using first second by blast
qed

text \<open>
  C1. The remote answers the request for the pokemon table with an empty member list and
  a cursor to a second page. \<open>fetchTable\<close> issues that one request and returns: the
  cursor is not followed, because the test of \<open>view.next\<close> sits inside the branch that is
  taken only when the page has members.
\<close>

theorem cursor_without_members_not_followed:
  "remote cursorOnly (fullUrl opened pokemonTable)
     = Json (BData (Some []) (Some (Some (str ''/en/pokemon?page=2''))))
   \<and> fetchTable 3 cursorOnly (Some pokemonTable) opened
       = Some (Inr (), act (Fetch (fullUrl opened pokemonTable)) opened)
   \<and> requests (log (act (Fetch (fullUrl opened pokemonTable)) opened))
       = [str ''https://api/en/pokemon'']"
proof -
  have r: "remote cursorOnly (fullUrl opened pokemonTable)
             = Json (BData (Some []) (Some (Some (str ''/en/pokemon?page=2''))))"
    by (simp add: cursorOnly_def cursorOnlyRemote_def)
  have d: "db opened \<noteq> None"
    by (simp add: opened_fields)
  have three: "3 = Suc 2"
    by simp
  have q: "requests (log (act (Fetch (fullUrl opened pokemonTable)) opened))
             = [str ''https://api/en/pokemon'']"
    by (simp add: act_def requests_append offline_urls) (simp add: opened_state)
  show ?thesis
    using r q fetchTable_empty_page [OF d r, of 2] unfolding three by simp
qed

lemma syncTable_pages:
  assumes "tableBound ev s (tname t)" and "idb s (tname t) = []"
    and "chainPages k (remote ev) (localeText s) (root t) (endpoint t) = Some ps"
  shows "\<exists>s'. syncTable k ev (Some t) s = Some (Inr (), s') \<and> fetched ev (tname t) ps s s'"
proof -
  have d: "db s \<noteq> None"
    using assms(1) by (auto simp: tableBound_def tableDefined_def split: option.splits)
  obtain s' where "fetchTable k ev (Some t) s = Some (Inr (), s')"
    and "fetched ev (tname t) ps s s'"
    using fetchTable_chain [OF assms(1), of k] assms(3) by auto
  then show ?thesis
    using assms by (simp add: syncTable_cases [OF d])
qed

lemma failed_first_page:
  assumes "failedResponse (rem (replaceFirst (str ''{locale}'') loc (rt @ ep)))"
    and "chainPages k rem loc rt ep = Some ps"
  shows "concat (map snd ps) = []"
proof -
  obtain k' where k: "k = Suc k'"
    using assms(2) by (cases k) auto
  show ?thesis
    using assms unfolding k
    by (cases "rem (replaceFirst (str ''{locale}'') loc (rt @ ep))" rule: failedResponse.cases)
      (auto simp: Let_def)
qed

text \<open>
  C3, as the code has it. After \<open>syncTable\<close> on an empty bound table, the table holds
  what \<open>add\<close> made of the members of the pages fetched before the chain ended, and no
  other table changed. When the first request fails, that is nothing: the table is still
  empty and its count is zero, so the next scan lists it again. Records of pages fetched
  before a later failure stay.
\<close>

theorem failed_sync_keeps_fetched_pages:
  assumes "tableBound ev s (tname t)" and "idb s (tname t) = []"
    and "chainPages k (remote ev) (localeText s) (root t) (endpoint t) = Some ps"
  shows "\<exists>s'. syncTable k ev (Some t) s = Some (Inr (), s')
           \<and> idb s' (tname t) = foldl (addRec ev) [] (map toStored (concat (map snd ps)))
           \<and> (\<forall>n. n \<noteq> tname t \<longrightarrow> idb s' n = idb s n)
           \<and> (failedResponse (remote ev (fullUrl s t))
                \<longrightarrow> idb s' (tname t) = [] \<and> tableCount ev s' (tname t) = Inr 0)"
proof -
  obtain s' where run: "syncTable k ev (Some t) s = Some (Inr (), s')"
    and f: "fetched ev (tname t) ps s s'"
    using syncTable_pages [OF assms] by blast
  have content: "idb s' (tname t) = foldl (addRec ev) [] (map toStored (concat (map snd ps)))"
    using f assms(2) by (simp add: fetched_def)
  have others: "\<forall>n. n \<noteq> tname t \<longrightarrow> idb s' n = idb s n"
    using f by (simp add: fetched_def)
  have "sameManager s s'"
    using f by (simp add: fetched_def)
  then have bound: "tableBound ev s' (tname t)"
    using assms(1) by (simp add: sameManager_tableBound)
  have failed: "idb s' (tname t) = [] \<and> tableCount ev s' (tname t) = Inr 0"
    if fr: "failedResponse (remote ev (fullUrl s t))"
  proof -
    have "failedResponse (remote ev (replaceFirst (str ''{locale}'') (localeText s)
            (root t @ endpoint t)))"
      using fr by (simp add: fullUrl_def)
    then have nil: "concat (map snd ps) = []"
      using assms(3) by (rule failed_first_page)
    have "idb s' (tname t) = []"
      unfolding content nil by simp
    then show ?thesis
      using bound by (simp add: tableCount_bound)
  qed
  show ?thesis
    using run content others failed by blast
qed

lemma secondPageDown_sync:
  "\<exists>s'. syncTable 2 secondPageDown (Some pokemonTable) opened = Some (Inr (), s')
         \<and> sameManager opened s'
         \<and> idb s' = emptyDisk(str ''pokemon'' := [bulbasaur])"
proof -
  have e: "idb opened (tname pokemonTable) = []"
    by (simp add: opened_fields emptyDisk_def)
  obtain s' where run: "syncTable 2 secondPageDown (Some pokemonTable) opened = Some (Inr (), s')"
    and f: "fetched secondPageDown (tname pokemonTable)
              [(str ''https://api/en/pokemon'', [(1, str ''bulbasaur'')]),
               (str ''https://api/en/pokemon?page=2'', [])] opened s'"
    using syncTable_pages [OF secondPageDown_bound(1) e secondPageDown_chain] by blast
  have "idb s' = emptyDisk(str ''pokemon'' := [bulbasaur])"
    using f
    by (simp add: fetched_def opened_fields emptyDisk_def secondPageDown_def offline_def
        appendRec_def toStored_def bulbasaur_def pokemonTable_def)
  then show ?thesis
    using run f by (intro exI [of _ s']) (simp add: fetched_def)
qed

theorem failed_sync_keeps_fetched_pages_witness:
  "(\<exists>s'. syncTable 2 secondPageDown (Some pokemonTable) opened = Some (Inr (), s')
          \<and> idb s' (tname pokemonTable) = [bulbasaur])
   \<and> (\<exists>s'. syncTable 1 offline (Some pokemonTable) opened = Some (Inr (), s')
          \<and> idb s' (tname pokemonTable) = []
          \<and> tableCount offline s' (tname pokemonTable) = Inr 0)"
proof -
  have e: "idb opened (tname pokemonTable) = []"
    by (simp add: opened_fields emptyDisk_def)
  have a: "\<exists>s'. syncTable 2 secondPageDown (Some pokemonTable) opened = Some (Inr (), s')
             \<and> idb s' (tname pokemonTable) = [bulbasaur]"
    using failed_sync_keeps_fetched_pages [OF secondPageDown_bound(1) e secondPageDown_chain]
    by (auto simp: secondPageDown_def offline_def appendRec_def toStored_def bulbasaur_def)
  have loc: "localeText opened = str ''en''"
    by (simp add: localeText_def opened_fields)
  have c: "chainPages 1 (remote offline) (localeText opened) (root pokemonTable)
             (endpoint pokemonTable) = Some [(str ''https://api/en/pokemon'', [])]"
    unfolding loc by (simp add: pokemon_urls offline_def noNetwork_def)
  have fr: "failedResponse (remote offline (fullUrl opened pokemonTable))"
    by (simp add: offline_def noNetwork_def)
  have b: "\<exists>s'. syncTable 1 offline (Some pokemonTable) opened = Some (Inr (), s')
             \<and> idb s' (tname pokemonTable) = []
             \<and> tableCount offline s' (tname pokemonTable) = Inr 0"
    using failed_sync_keeps_fetched_pages [OF opened_bound(1) e c] fr by auto
  show ?thesis
    using a b by blast
qed

text \<open>
  A network failure at the second page leaves the first page's record in the table: its
  count is one, not zero, and a scan no longer lists the table as empty.
\<close>

theorem failed_table_not_empty_counterexample:
  "remote secondPageDown (str ''https://api/en/pokemon?page=2'') = NetworkError (str ''offline'')
   \<and> countAfter secondPageDown (syncTable 2 secondPageDown (Some pokemonTable) opened)
         (tname pokemonTable)
       = Inr 1
   \<and> emptyAfter secondPageDown (syncTable 2 secondPageDown (Some pokemonTable) opened)
       = Inr [itemTable]"
proof -
  obtain s' where run: "syncTable 2 secondPageDown (Some pokemonTable) opened = Some (Inr (), s')"
    and sm: "sameManager opened s'"
    and i: "idb s' = emptyDisk(str ''pokemon'' := [bulbasaur])"
    using secondPageDown_sync by blast
  have c: "config s' = config opened"
    using sm by (simp add: sameManager_def)
  have b: "tableBound secondPageDown s' (tname pokemonTable)"
    "tableBound secondPageDown s' (tname itemTable)"
    using secondPageDown_bound sameManager_tableBound [OF sm, of secondPageDown] by simp_all
  have ne: "str ''item'' \<noteq> str ''pokemon''"
    by (simp add: str_def)
  have r: "remote secondPageDown (str ''https://api/en/pokemon?page=2'')
             = NetworkError (str ''offline'')"
    by (simp add: secondPageDown_def secondPageDownRemote_def page2_neq)
  have cnt: "tableCount secondPageDown s' (tname pokemonTable) = Inr 1"
    using b(1) by (simp add: tableCount_bound i pokemonTable_def)
  have "tableCount secondPageDown s' (tname itemTable) = Inr 0"
    using b(2) ne by (simp add: tableCount_bound i itemTable_def emptyDisk_def)
  then have "fst (countEmptyTables secondPageDown s') = Inr [itemTable]"
    using cnt by (simp add: countEmptyTables_def c opened_fields demoConfig_def)
  then show ?thesis
    using r cnt by (simp add: run)
qed

section \<open>The locale reset of \<open>initializeDatabase\<close>\<close>

lemma initializeDatabase_reset_log:
  assumes "dbLocale s \<noteq> userLocale s" and "deleteRejects ev = None"
    and "bindError ev s = None"
  shows "log (snd (initializeDatabase ev s))
           = log s
               @ [Dispatch (BeforeCreate (cname (config s))), NewDexie (cname (config s)),
                  Dispatch (BeforeDelete (cname (config s))), DexieDelete,
                  Dispatch (AfterDelete (cname (config s))),
                  Dispatch (LocaleChanged (dbLocale s) (userLocale s)),
                  NewDexie (cname (config s)),
                  Dispatch (AfterCreate (cname (config s))),
                  Stores (cversion (config s)) (fromEntries (configEntries s)),
                  Dispatch (BeforeConnect (cname (config s))), DexieOpen]
               @ (case openRejects ev of
                    None \<Rightarrow> [Dispatch (AfterConnect (cname (config s)))]
                  | Some m \<Rightarrow> [])"
  using assms
  by (simp add: initializeDatabase_def deleteDatabase_def Let_def dispatchEvent_def act_def
      newDexie_def bindSchema_def bindError_def configEntries_def dbName_def
      split: option.split option.split_asm if_split_asm)

lemma initializeDatabase_reset_unbound:
  assumes "dbLocale s \<noteq> userLocale s" and "deleteRejects ev = None"
    and "bindError ev s = Some e"
  shows "fst (initializeDatabase ev s) = Inl (InitializeFailed e)
         \<and> log (snd (initializeDatabase ev s))
           = log s
               @ [Dispatch (BeforeCreate (cname (config s))), NewDexie (cname (config s)),
                  Dispatch (BeforeDelete (cname (config s))), DexieDelete,
                  Dispatch (AfterDelete (cname (config s))),
                  Dispatch (LocaleChanged (dbLocale s) (userLocale s)),
                  NewDexie (cname (config s)),
                  Dispatch (AfterCreate (cname (config s)))]"
  using assms
  by (auto simp: initializeDatabase_def deleteDatabase_def Let_def dispatchEvent_def act_def
      newDexie_def bindSchema_def bindError_def configEntries_def dbName_def
      split: option.split option.split_asm if_split_asm)

lemma initializeDatabase_stuck_log:
  assumes "dbLocale s \<noteq> userLocale s" and "deleteRejects ev = Some m"
  shows "fst (initializeDatabase ev s) = Inl (InitializeFailed (DeleteFailed (Thrown m)))
         \<and> log (snd (initializeDatabase ev s))
             = log s
                 @ [Dispatch (BeforeCreate (cname (config s))), NewDexie (cname (config s)),
                    Dispatch (BeforeDelete (cname (config s))), DexieDelete]"
  using assms
  by (simp add: initializeDatabase_def deleteDatabase_def Let_def dispatchEvent_def act_def
      newDexie_def dbName_def split: option.split)

lemma initializeDatabase_same_log:
  assumes "dbLocale s = userLocale s" and "bindError ev s = None"
  shows "log (snd (initializeDatabase ev s))
           = log s
               @ [Dispatch (BeforeCreate (cname (config s))), NewDexie (cname (config s)),
                  Dispatch (AfterCreate (cname (config s))),
                  Stores (cversion (config s)) (fromEntries (configEntries s)),
                  Dispatch (BeforeConnect (cname (config s))), DexieOpen]
               @ (case openRejects ev of
                    None \<Rightarrow> [Dispatch (AfterConnect (cname (config s)))]
                  | Some m \<Rightarrow> [])"
  using assms
  by (simp add: initializeDatabase_def deleteDatabase_def Let_def dispatchEvent_def act_def
      newDexie_def bindSchema_def bindError_def configEntries_def dbName_def
      split: option.split option.split_asm if_split_asm)

lemma initializeDatabase_same_unbound:
  assumes "dbLocale s = userLocale s" and "bindError ev s = Some e"
  shows "fst (initializeDatabase ev s) = Inl (InitializeFailed e)
         \<and> log (snd (initializeDatabase ev s))
           = log s
               @ [Dispatch (BeforeCreate (cname (config s))), NewDexie (cname (config s)),
                  Dispatch (AfterCreate (cname (config s)))]"
  using assms
  by (auto simp: initializeDatabase_def deleteDatabase_def Let_def dispatchEvent_def act_def
      newDexie_def bindSchema_def bindError_def configEntries_def dbName_def
      split: option.split option.split_asm if_split_asm)

lemma initializeDatabase_handle:
  assumes "fst (initializeDatabase ev s) = Inr ()"
  shows "db (snd (initializeDatabase ev s)) \<noteq> None"
  using assms
  by (auto simp: initializeDatabase_def deleteDatabase_def Let_def dispatchEvent_def act_def
      newDexie_def bindSchema_def dbName_def split: option.splits if_splits)

lemma populateEmptyTables_extends:
  assumes "db s \<noteq> None" and "populateEmptyTables k ev ts s = Some (r, s')"
  shows "extends s s'"
proof -
  obtain r1 s1 where loop: "populateLoop k ev (length ts) 1 ts s = Some (r1, s1)"
    using assms(2) by (cases "populateLoop k ev (length ts) 1 ts s") (auto simp: populateEmptyTables_def)
  have r1: "r1 = Inr ()" and pop: "populated (length ts) 1 ts s s1"
    using populateLoop_partial [OF assms(1) loop] by simp_all
  have s': "s' = dispatchEvent Ready s1"
    using assms(2) loop r1 by (simp add: populateEmptyTables_def)
  have "extends s1 (dispatchEvent Ready s1)"
    by (simp add: dispatchEvent_def extends_act)
  then show ?thesis
    using pop extends_trans unfolding s' populated_def by blast
qed

lemma initializeThen_extends:
  assumes "db s \<noteq> None" and "initializeThen k ev s = Some (r, s')"
  shows "extends s s'"
proof -
  have same: "snd (countEmptyTables ev s) = s"
    by (simp add: countEmptyTables_def split: option.split)
  then obtain c where c: "countEmptyTables ev s = (c, s)"
    by (metis prod.collapse)
  show ?thesis
  proof (cases c)
    case (Inl e)
    then have "s' = s"
      using assms(2) c by (simp add: initializeThen_def)
    then show ?thesis
      by (simp add: extends_refl)
  next
    case (Inr emptyTables)
    show ?thesis
    proof (cases "emptyTables = []")
      case True
      then have "s' = dispatchEvent Ready s"
        using assms(2) c Inr by (simp add: initializeThen_def)
      then show ?thesis
        by (simp add: dispatchEvent_def extends_act)
    next
      case False
      then have "populateEmptyTables k ev emptyTables s = Some (r, s')"
        using assms(2) c Inr by (simp add: initializeThen_def)
      then show ?thesis
        using populateEmptyTables_extends [OF assms(1)] by blast
    qed
  qed
qed

text \<open>
  C4, as the code has it. With different locales and a delete that succeeds, the awaited
  part of \<open>initializeDatabase\<close> does exactly this, in this order: it dispatches
  \<open>database:localeChanged\<close> once, with \<open>dbLocale\<close> as the old and \<open>userLocale\<close> as the
  new locale, after \<open>database:beforeDelete\<close>, the delete and \<open>database:afterDelete\<close>, and
  before the schemas are bound with \<open>stores\<close>; when \<open>version(...).stores(...)\<close> throws, the
  run ends after \<open>database:afterCreate\<close> with the thrown error wrapped, the event having
  been dispatched all the same. When the delete fails, it fails after
  \<open>database:beforeDelete\<close>, with no \<open>database:localeChanged\<close> and no schema bound. With
  equal locales there is no delete and no \<open>database:localeChanged\<close>. The scan and the
  population that follow a successful initialisation add only requests, inserts, console
  errors, delays and progress and ready events.
\<close>

theorem initializeDatabase_locale_reset:
  "(dbLocale s \<noteq> userLocale s \<and> deleteRejects ev = None \<and> bindError ev s = None \<longrightarrow>
      log (snd (initializeDatabase ev s))
        = log s
            @ [Dispatch (BeforeCreate (cname (config s))), NewDexie (cname (config s)),
               Dispatch (BeforeDelete (cname (config s))), DexieDelete,
               Dispatch (AfterDelete (cname (config s))),
               Dispatch (LocaleChanged (dbLocale s) (userLocale s)),
               NewDexie (cname (config s)),
               Dispatch (AfterCreate (cname (config s))),
               Stores (cversion (config s)) (fromEntries (configEntries s)),
               Dispatch (BeforeConnect (cname (config s))), DexieOpen]
            @ (case openRejects ev of
                 None \<Rightarrow> [Dispatch (AfterConnect (cname (config s)))]
               | Some m \<Rightarrow> []))
   \<and> (dbLocale s \<noteq> userLocale s \<and> deleteRejects ev = None \<and> bindError ev s = Some e \<longrightarrow>
        fst (initializeDatabase ev s) = Inl (InitializeFailed e)
        \<and> log (snd (initializeDatabase ev s))
            = log s
                @ [Dispatch (BeforeCreate (cname (config s))), NewDexie (cname (config s)),
                   Dispatch (BeforeDelete (cname (config s))), DexieDelete,
                   Dispatch (AfterDelete (cname (config s))),
                   Dispatch (LocaleChanged (dbLocale s) (userLocale s)),
                   NewDexie (cname (config s)),
                   Dispatch (AfterCreate (cname (config s)))])
   \<and> (dbLocale s \<noteq> userLocale s \<and> deleteRejects ev = Some m \<longrightarrow>
        fst (initializeDatabase ev s) = Inl (InitializeFailed (DeleteFailed (Thrown m)))
        \<and> log (snd (initializeDatabase ev s))
            = log s
                @ [Dispatch (BeforeCreate (cname (config s))), NewDexie (cname (config s)),
                   Dispatch (BeforeDelete (cname (config s))), DexieDelete])
   \<and> (dbLocale s = userLocale s \<and> bindError ev s = None \<longrightarrow>
        log (snd (initializeDatabase ev s))
          = log s
              @ [Dispatch (BeforeCreate (cname (config s))), NewDexie (cname (config s)),
                 Dispatch (AfterCreate (cname (config s))),
                 Stores (cversion (config s)) (fromEntries (configEntries s)),
                 Dispatch (BeforeConnect (cname (config s))), DexieOpen]
              @ (case openRejects ev of
                   None \<Rightarrow> [Dispatch (AfterConnect (cname (config s)))]
                 | Some m \<Rightarrow> []))
   \<and> (dbLocale s = userLocale s \<and> bindError ev s = Some e \<longrightarrow>
        fst (initializeDatabase ev s) = Inl (InitializeFailed e)
        \<and> log (snd (initializeDatabase ev s))
            = log s
                @ [Dispatch (BeforeCreate (cname (config s))), NewDexie (cname (config s)),
                   Dispatch (AfterCreate (cname (config s)))])
   \<and> (fst (initializeDatabase ev s) = Inr ()
        \<and> initializeThen k ev (snd (initializeDatabase ev s)) = Some (r, s2)
        \<longrightarrow> extends (snd (initializeDatabase ev s)) s2)"
  using initializeDatabase_reset_log [of s ev] initializeDatabase_stuck_log [of s ev m]
    initializeDatabase_reset_unbound [of s ev e] initializeDatabase_same_unbound [of s ev e]
    initializeDatabase_same_log [of s ev] initializeDatabase_handle [of ev s]
    initializeThen_extends [of "snd (initializeDatabase ev s)" k ev r s2]
  by blast

theorem initializeDatabase_locale_reset_witness:
  "dbLocale otherLocale \<noteq> userLocale otherLocale
   \<and> deleteRejects offline = None
   \<and> bindError offline otherLocale = None
   \<and> log (snd (initializeDatabase offline otherLocale))
       = [NewEventTarget, Dispatch (BeforeCreate (str ''dex'')), NewDexie (str ''dex''),
          Dispatch (BeforeDelete (str ''dex'')), DexieDelete,
          Dispatch (AfterDelete (str ''dex'')),
          Dispatch (LocaleChanged (str ''en'') (str ''fr'')),
          NewDexie (str ''dex''),
          Dispatch (AfterCreate (str ''dex'')),
          Stores 1 (fromEntries [(str ''pokemon'', str ''id''), (str ''item'', str ''id'')]),
          Dispatch (BeforeConnect (str ''dex'')), DexieOpen,
          Dispatch (AfterConnect (str ''dex''))]"
proof -
  have l: "dbLocale otherLocale \<noteq> userLocale otherLocale"
    by (simp add: otherLocale_def sameLocale_def str_def)
  have d: "deleteRejects offline = None" and o: "openRejects offline = None"
    by (simp_all add: offline_def)
  have b: "bindError offline otherLocale = None"
    by (simp add: bindError_def offline_def anySchema_def otherLocale_def sameLocale_def
        demoConfig_def)
  have "log (snd (initializeDatabase offline otherLocale))
          = log otherLocale
              @ [Dispatch (BeforeCreate (cname (config otherLocale))),
                 NewDexie (cname (config otherLocale)),
                 Dispatch (BeforeDelete (cname (config otherLocale))), DexieDelete,
                 Dispatch (AfterDelete (cname (config otherLocale))),
                 Dispatch (LocaleChanged (dbLocale otherLocale) (userLocale otherLocale)),
                 NewDexie (cname (config otherLocale)),
                 Dispatch (AfterCreate (cname (config otherLocale))),
                 Stores (cversion (config otherLocale))
                   (fromEntries (configEntries otherLocale)),
                 Dispatch (BeforeConnect (cname (config otherLocale))), DexieOpen]
              @ (case openRejects offline of
                   None \<Rightarrow> [Dispatch (AfterConnect (cname (config otherLocale)))]
                 | Some m \<Rightarrow> [])"
    using initializeDatabase_locale_reset [of otherLocale offline] l d b by blast
  then show ?thesis
    using l d b
    by (simp add: o configEntries_def otherLocale_def sameLocale_def demoConfig_def
        pokemonTable_def itemTable_def)
qed

text \<open>
  With different locales and a delete that fails, no \<open>database:localeChanged\<close> event is
  dispatched at all.
\<close>

theorem no_localeChanged_counterexample:
  "dbLocale otherLocale \<noteq> userLocale otherLocale
   \<and> fst (initializeDatabase stuckDelete otherLocale)
       = Inl (InitializeFailed (DeleteFailed (Thrown (str ''blocked''))))
   \<and> events (log (snd (initializeDatabase stuckDelete otherLocale)))
       = [BeforeCreate (str ''dex''), BeforeDelete (str ''dex'')]"
proof -
  have l: "dbLocale otherLocale \<noteq> userLocale otherLocale"
    by (simp add: otherLocale_def sameLocale_def str_def)
  have d: "deleteRejects stuckDelete = Some (str ''blocked'')"
    by (simp add: stuckDelete_def)
  show ?thesis
    using l initializeDatabase_stuck_log [OF l d]
    by (simp add: otherLocale_def sameLocale_def demoConfig_def)
qed

section \<open>The progress string and its listener\<close>

lemma roundHalfEven_nearest:
  assumes "0 < n"
  shows "2 * ((n * roundHalfEven a n - a) + (a - n * roundHalfEven a n)) < n
         \<or> 2 * ((n * roundHalfEven a n - a) + (a - n * roundHalfEven a n)) = n
           \<and> even (roundHalfEven a n)"
proof -
  define q where "q = a div n"
  define r where "r = a mod n"
  have a: "a = n * q + r"
    by (simp add: q_def r_def)
  have r: "r < n"
    using assms by (simp add: r_def)
  consider (low) "2 * r < n" | (high) "n < 2 * r" | (tie) "2 * r = n"
    by linarith
  then show ?thesis
  proof cases
    case low
    then have "roundHalfEven a n = q"
      by (simp add: roundHalfEven_def Let_def q_def r_def)
    then show ?thesis
      using low by (simp add: a)
  next
    case high
    then have "roundHalfEven a n = q + 1"
      by (simp add: roundHalfEven_def Let_def q_def r_def)
    then show ?thesis
      using high r by (auto simp: a algebra_simps)
  next
    case tie
    show ?thesis
    proof (cases "even q")
      case True
      then have "roundHalfEven a n = q"
        using tie by (simp add: roundHalfEven_def Let_def q_def r_def)
      then show ?thesis
        using tie True by (simp add: a)
    next
      case False
      then have "roundHalfEven a n = q + 1"
        using tie by (simp add: roundHalfEven_def Let_def q_def r_def)
      then show ?thesis
        using tie False r by (auto simp: a algebra_simps)
    qed
  qed
qed

lemma divDouble_nearest:
  assumes "0 < i" and "i \<le> n"
  shows "nearestDouble i n (fst (divDouble i n)) (snd (divDouble i n))"
proof -
  have n: "0 < n"
    using assms by simp
  have lo: "n \<le> i * 2 ^ binExp i n" and hi: "i * 2 ^ binExp i n < 2 * n"
    using binExp_bounds [OF assms] by simp_all
  have x: "i * 2 ^ (52 + binExp i n) = (i * 2 ^ binExp i n) * 2 ^ 52"
    by (simp add: power_add)
  have "n * 2 ^ 52 \<le> i * 2 ^ (52 + binExp i n)"
    unfolding x using lo by simp
  moreover have "i * 2 ^ (52 + binExp i n) < n * 2 ^ 53"
    unfolding x using hi by simp
  ultimately show ?thesis
    using roundHalfEven_nearest [OF n, of "i * 2 ^ (52 + binExp i n)"]
    by (simp add: nearestDouble_def divDouble_def Let_def)
qed

lemma hundredths_nearest:
  "nearestHundredth (fst (divDouble i n)) (snd (divDouble i n)) (hundredths i n)"
proof -
  obtain m x where d: "divDouble i n = (m, x)"
    by (cases "divDouble i n")
  define A :: nat where "A = 200 * m + 2 ^ x"
  define B :: nat where "B = 2 * 2 ^ x"
  have B: "0 < B"
    by (simp add: B_def)
  have "B * (A div B) \<le> A"
    by simp
  moreover have "A < B * (A div B + 1)"
    using B by (metis Suc_eq_plus1 dividend_less_times_div mult_Suc_right)
  ultimately show ?thesis
    by (simp add: nearestHundredth_def hundredths_def d A_def B_def algebra_simps)
qed

lemma binade_exponent:
  fixes i c x x' :: nat
  assumes "c \<le> i * 2 ^ x" and "i * 2 ^ x' < 2 * c"
  shows "x' \<le> x"
proof (rule ccontr)
  assume "\<not> x' \<le> x"
  then obtain d where x': "x' = Suc (x + d)"
    by (metis less_imp_Suc_add not_le_imp_less)
  have "2 * (i * 2 ^ x) * 1 \<le> 2 * (i * 2 ^ x) * 2 ^ d"
    by (rule mult_le_mono2) simp
  also have "\<dots> = i * 2 ^ x'"
    by (simp add: x' power_add)
  finally have "2 * (i * 2 ^ x) \<le> i * 2 ^ x'"
    by simp
  then show False
    using assms by linarith
qed

lemma nearestDouble_exponent:
  fixes i n x x' :: nat
  assumes "n * 2 ^ 52 \<le> i * 2 ^ x" and "i * 2 ^ x' < n * 2 ^ 53"
  shows "x' \<le> x"
proof -
  have "i * 2 ^ x' < 2 * (n * 2 ^ 52)"
    using assms(2) by simp
  then show ?thesis
    using binade_exponent [OF assms(1)] by blast
qed

lemma nearest_multiple_unique:
  fixes n m m' a :: nat
  assumes n: "0 < n"
    and d: "2 * ((n * m - a) + (a - n * m)) < n
            \<or> 2 * ((n * m - a) + (a - n * m)) = n \<and> even m"
    and d': "2 * ((n * m' - a) + (a - n * m')) < n
             \<or> 2 * ((n * m' - a) + (a - n * m')) = n \<and> even m'"
    and less: "m < m'"
  shows False
proof -
  have "n * Suc m \<le> n * m'"
    using less by (intro mult_le_mono2) simp
  then have step: "n * m + n \<le> n * m'"
    by simp
  have le: "2 * ((n * m - a) + (a - n * m)) \<le> n" "2 * ((n * m' - a) + (a - n * m')) \<le> n"
    using d d' by auto
  define D where "D = (n * m - a) + (a - n * m)"
  define D' where "D' = (n * m' - a) + (a - n * m')"
  have "a \<le> n * m + D" and "n * m' \<le> a + D'"
    by (simp_all add: D_def D'_def)
  moreover have "2 * D \<le> n" and "2 * D' \<le> n"
    using le by (simp_all add: D_def D'_def)
  ultimately have "2 * D = n \<and> 2 * D' = n"
    using step by linarith
  then have tie: "2 * ((n * m - a) + (a - n * m)) = n" "2 * ((n * m' - a) + (a - n * m')) = n"
    by (simp_all add: D_def D'_def)
  then have ev: "even m" "even m'"
    using d d' by simp_all
  have "n * m' = n * m + n"
    using step tie \<open>a \<le> n * m + D\<close> \<open>n * m' \<le> a + D'\<close>
    unfolding D_def [symmetric] D'_def [symmetric] by linarith
  then have "n * m' = n * Suc m"
    by simp
  then have "m' = Suc m"
    using n mult_cancel1 [of n m' "Suc m"] by blast
  then show False
    using ev by simp
qed

lemma nearestDouble_unique:
  assumes "nearestDouble i n m x" and "nearestDouble i n m' x'"
  shows "x' = x \<and> m' = m"
proof -
  have b: "n * 2 ^ 52 \<le> i * 2 ^ x" "i * 2 ^ x < n * 2 ^ 53"
    and b': "n * 2 ^ 52 \<le> i * 2 ^ x'" "i * 2 ^ x' < n * 2 ^ 53"
    using assms by (simp_all add: nearestDouble_def)
  have n: "0 < n"
    using b(2) by (cases n) simp_all
  have x: "x' = x"
    using nearestDouble_exponent [OF b(1) b'(2)] nearestDouble_exponent [OF b'(1) b(2)]
    by simp
  have d: "2 * ((n * m - i * 2 ^ x) + (i * 2 ^ x - n * m)) < n
           \<or> 2 * ((n * m - i * 2 ^ x) + (i * 2 ^ x - n * m)) = n \<and> even m"
    using assms(1) by (simp add: nearestDouble_def Let_def)
  have d': "2 * ((n * m' - i * 2 ^ x) + (i * 2 ^ x - n * m')) < n
            \<or> 2 * ((n * m' - i * 2 ^ x) + (i * 2 ^ x - n * m')) = n \<and> even m'"
    using assms(2) by (simp add: nearestDouble_def Let_def x)
  have "\<not> m < m'"
    using nearest_multiple_unique [OF n d d'] by blast
  moreover have "\<not> m' < m"
    using nearest_multiple_unique [OF n d' d] by blast
  ultimately show ?thesis
    using x by simp
qed

lemma nearestHundredth_unique:
  assumes "nearestHundredth m x N" and "nearestHundredth m x N'"
  shows "N' = N"
proof -
  have less: False
    if a: "2 ^ x * (2 * K) \<le> 200 * m + 2 ^ x" and b: "200 * m + 2 ^ x < 2 ^ x * (2 * L + 2)"
      and l: "L < K" for K L :: nat
  proof -
    have "2 * L + 2 \<le> 2 * K"
      using l by simp
    then have "(2::nat) ^ x * (2 * L + 2) \<le> 2 ^ x * (2 * K)"
      by (rule mult_le_mono2)
    then show False
      using a b by linarith
  qed
  have "\<not> N < N'"
    using less [of N' N] assms by (auto simp: nearestHundredth_def)
  moreover have "\<not> N' < N"
    using less [of N N'] assms by (auto simp: nearestHundredth_def)
  ultimately show ?thesis
    by simp
qed

lemma fixed_unique:
  assumes "nearestDouble i n m x" and "nearestHundredth m x N"
    and "nearestDouble i n m' x'" and "nearestHundredth m' x' N'"
  shows "N' = N"
  using assms nearestDouble_unique [OF assms(1) assms(3)] nearestHundredth_unique by blast

lemma toNumber_fixed:
  assumes "N < 1000"
  shows "toNumber [48 + N div 100, 46, 48 + N div 10 mod 10, 48 + N mod 10]
           = Some (nearest N 100)"
proof -
  have "N div 100 \<le> 9" and "N div 10 mod 10 \<le> 9" and "N mod 10 \<le> 9"
    using assms by simp_all
  then show ?thesis
    using digits_sum [of N]
    by (simp add: toNumber_def Let_def isDigit_def digitsValue_def)
qed

lemma nearest_bounds:
  assumes "0 < a" and "0 < b" and "a < b * 2 ^ 52" and "nearest a b = (m, e)"
  shows "b * 2 ^ 52 \<le> a * 2 ^ e" and "a * 2 ^ e < 2 * (b * 2 ^ 52)"
    and "2 ^ 52 \<le> m" and "m \<le> 2 * 2 ^ 52"
    and "2 * (b * m) \<le> 2 * (a * 2 ^ e) + b" and "2 * (a * 2 ^ e) \<le> 2 * (b * m) + b"
proof -
  have e: "e = binExp a (b * 2 ^ 52)" and m: "m = roundHalfEven (a * 2 ^ e) b"
    using assms(4) by (auto simp: nearest_def Let_def)
  have "binExp a (b * 2 ^ 52) = Suc (binExp (2 * a) (b * 2 ^ 52))"
    using assms(1,3) by (subst binExp.simps) simp
  then have pos: "0 < e"
    by (simp add: e)
  show lo: "b * 2 ^ 52 \<le> a * 2 ^ e"
    using binExp_bounds_gen [OF assms(1), of "b * 2 ^ 52"] by (simp add: e)
  show hi: "a * 2 ^ e < 2 * (b * 2 ^ 52)"
    using binExp_bounds_gen [OF assms(1), of "b * 2 ^ 52"] pos by (simp add: e)
  have "2 ^ 52 * b \<le> a * 2 ^ e"
    using lo by (simp add: mult.commute)
  then show "2 ^ 52 \<le> m"
    unfolding m by (rule roundHalfEven_lower [OF assms(2)])
  have "a * 2 ^ e < (2 * 2 ^ 52) * b"
    using hi by (simp add: mult.commute mult.left_commute)
  then show "m \<le> 2 * 2 ^ 52"
    unfolding m by (rule roundHalfEven_upper)
  show "2 * (b * m) \<le> 2 * (a * 2 ^ e) + b" and "2 * (a * 2 ^ e) \<le> 2 * (b * m) + b"
    unfolding m using roundHalfEven_error [OF assms(2), of "a * 2 ^ e"] by simp_all
qed

lemma times100_zero: "times100 (nearest 0 100) = (0, 0)"
  by (simp add: times100_def nearest_def roundHalfEven_def Let_def binExp.simps [of 0])

lemma times100_near:
  assumes "0 < N" and "N \<le> 100"
  shows "\<exists>m' x'. times100 (nearest N 100) = (m', x')
           \<and> N * 2 ^ x' \<le> m' + 1 \<and> m' \<le> N * 2 ^ x' + 1 \<and> 46 \<le> x'"
proof -
  obtain m e where ne: "nearest N 100 = (m, e)"
    by (cases "nearest N 100")
  define K :: nat where "K = 2 ^ e"
  define E :: nat where "E = 2 ^ 52"
  have E: "200 < E" "101 * 2 ^ 45 < E"
    by (simp_all add: E_def)
  have small: "N < 100 * 2 ^ 52"
    using assms(2) by simp
  have A1: "100 * E \<le> N * K" and A3: "E \<le> m" and A4: "m \<le> 2 * E"
    and A5: "2 * (100 * m) \<le> 2 * (N * K) + 100"
    and A6: "2 * (N * K) \<le> 2 * (100 * m) + 100"
    unfolding K_def E_def
    using nearest_bounds [OF assms(1) _ small ne] by simp_all
  have NK: "N * K \<le> 100 * K"
    using assms(2) by (rule mult_le_mono1)
  have K: "E \<le> K"
    using A1 NK by linarith
  obtain m' x' where pe: "nearest (100 * m) K = (m', x')"
    by (cases "nearest (100 * m) K")
  define L :: nat where "L = 2 ^ x'"
  have pm: "0 < 100 * m"
    using A3 E by linarith
  have pk: "0 < K"
    by (simp add: K_def)
  have "200 * E < E * E"
    using E(1) by simp
  moreover have "E * E \<le> K * E"
    using K by (rule mult_le_mono1)
  ultimately have "100 * m < K * E"
    using A4 by linarith
  then have psmall: "100 * m < K * 2 ^ 52"
    by (simp add: E_def)
  define T where "T = 100 * m * L"
  define U where "U = N * K * L"
  define V where "V = K * m'"
  have B1: "K * E \<le> T" and B2: "T < 2 * (K * E)"
    and B5: "2 * V \<le> 2 * T + K" and B6: "2 * T \<le> 2 * V + K"
    unfolding L_def T_def V_def E_def
    using nearest_bounds [OF pm pk psmall pe] by simp_all
  have "(2 * (N * K)) * L \<le> (2 * (100 * m) + 100) * L"
    using A6 by (rule mult_le_mono1)
  then have F1: "2 * U \<le> 2 * T + 100 * L"
    by (simp add: U_def T_def algebra_simps)
  have "(2 * (100 * m)) * L \<le> (2 * (N * K) + 100) * L"
    using A5 by (rule mult_le_mono1)
  then have F2: "2 * T \<le> 2 * U + 100 * L"
    by (simp add: U_def T_def algebra_simps)
  have "E * (100 * L) \<le> m * (100 * L)"
    using A3 by (rule mult_le_mono1)
  moreover have "m * (100 * L) = T"
    by (simp add: T_def)
  moreover have "2 * (K * E) = E * (2 * K)"
    by simp
  ultimately have "E * (100 * L) < E * (2 * K)"
    using B2 by linarith
  then have "100 * L < 2 * K"
    by simp
  then have F5: "50 * L < K"
    by simp
  have lower: "N * L \<le> m' + 1"
  proof (rule ccontr)
    assume "\<not> N * L \<le> m' + 1"
    then have "m' + 2 \<le> N * L"
      by simp
    then have "K * (m' + 2) \<le> K * (N * L)"
      by (rule mult_le_mono2)
    then have "V + 2 * K \<le> U"
      by (simp add: U_def V_def algebra_simps)
    then show False
      using F1 B6 F5 by linarith
  qed
  have upper: "m' \<le> N * L + 1"
  proof (rule ccontr)
    assume "\<not> m' \<le> N * L + 1"
    then have "N * L + 2 \<le> m'"
      by simp
    then have "K * (N * L + 2) \<le> K * m'"
      by (rule mult_le_mono2)
    then have "U + 2 * K \<le> V"
      by (simp add: U_def V_def algebra_simps)
    then show False
      using F2 B5 F5 by linarith
  qed
  have expo: "46 \<le> x'"
  proof (rule ccontr)
    assume "\<not> 46 \<le> x'"
    then have "x' \<le> 45"
      by simp
    then have "(2::nat) ^ x' \<le> 2 ^ 45"
      by (intro power_increasing) simp_all
    then have L: "101 * L \<le> 101 * 2 ^ 45"
      by (simp add: L_def)
    have "100 * m \<le> 101 * K"
      using A5 NK K E(1) by linarith
    then have "(100 * m) * L \<le> (101 * K) * L"
      by (rule mult_le_mono1)
    moreover have "(100 * m) * L = T"
      by (simp add: T_def)
    moreover have "(101 * K) * L = K * (101 * L)"
      by simp
    ultimately have "K * E \<le> K * (101 * L)"
      using B1 by linarith
    then have "E \<le> 101 * L"
      using pk by simp
    then show False
      using L E(2) by linarith
  qed
  show ?thesis
    using lower upper expo pe ne
    by (intro exI [of _ m'] exI [of _ x']) (simp add: times100_def K_def L_def)
qed

lemma dispatchedSince_append:
  assumes "events (log s') = events (log s) @ es"
  shows "dispatchedSince s s' = es"
  using assms by (simp add: dispatchedSince_def)

lemma populateLoop_no_handle:
  assumes "db s = None"
  shows "populateLoop k ev len i ts s = Some (if ts = [] then Inr () else Inl NoDatabase, s)"
  using assms by (cases ts) (simp_all add: syncTable_def)

lemma populateLoop_dispatched:
  assumes "populateLoop k ev len i ts s = Some (r, s')"
  shows "set (dispatchedSince s s') \<subseteq> set (progressFrom len i ts)"
proof (cases "db s")
  case None
  then have "s' = s"
    using assms populateLoop_no_handle [OF None, of k ev len i ts] by simp
  then show ?thesis
    by (simp add: dispatchedSince_def)
next
  case (Some h)
  then have "populated len i ts s s'"
    using populateLoop_partial [OF _ assms] by simp
  then show ?thesis
    by (simp add: populated_def dispatchedSince_append)
qed

lemma populateEmptyTables_dispatched:
  assumes "populateEmptyTables k ev ts s = Some (r, s')"
  shows "set (dispatchedSince s s') \<subseteq> insert Ready (set (progressFrom (length ts) 1 ts))"
proof -
  obtain r1 s1 where loop: "populateLoop k ev (length ts) 1 ts s = Some (r1, s1)"
    using assms by (cases "populateLoop k ev (length ts) 1 ts s") (auto simp: populateEmptyTables_def)
  have sub: "set (dispatchedSince s s1) \<subseteq> set (progressFrom (length ts) 1 ts)"
    using populateLoop_dispatched [OF loop] .
  have pre: "take (length (events (log s))) (events (log s1)) = events (log s)"
  proof (cases "db s")
    case None
    then have "s1 = s"
      using loop populateLoop_no_handle [OF None, of k ev "length ts" 1 ts] by simp
    then show ?thesis
      by simp
  next
    case (Some h)
    then have "populated (length ts) 1 ts s s1"
      using populateLoop_partial [OF _ loop] by simp
    then show ?thesis
      by (simp add: populated_def)
  qed
  have ev1: "events (log s1) = events (log s) @ dispatchedSince s s1"
    using pre unfolding dispatchedSince_def by (metis append_take_drop_id)
  show ?thesis
  proof (cases r1)
    case (Inl e)
    then have "s' = s1"
      using assms loop by (simp add: populateEmptyTables_def)
    then show ?thesis
      using sub by auto
  next
    case (Inr u)
    then have "s' = dispatchEvent Ready s1"
      using assms loop by (simp add: populateEmptyTables_def)
    then have "events (log s') = events (log s) @ (dispatchedSince s s1 @ [Ready])"
      using ev1 by (simp add: dispatchEvent_def act_def events_append)
    then have "dispatchedSince s s' = dispatchedSince s s1 @ [Ready]"
      by (rule dispatchedSince_append)
    then show ?thesis
      using sub by auto
  qed
qed

lemma progressFrom_take:
  assumes "e \<in> set (progressFrom len 1 (take j ts))"
  shows "\<exists>i nm. 1 \<le> i \<and> i \<le> length ts \<and> e = Progress i len nm (toFixed2 i len)"
proof -
  obtain i nm where "1 \<le> i" and "i < 1 + length (take j ts)"
    and "e = Progress i len nm (toFixed2 i len)"
    using progressFrom_set [OF assms] by blast
  then show ?thesis
    by (intro exI [of _ i] exI [of _ nm]) simp
qed


lemma progress_shape:
  assumes "0 < i" and "i \<le> n"
  shows "\<exists>N m x m' x'.
           toFixed2 i n = [48 + N div 100, 46, 48 + N div 10 mod 10, 48 + N mod 10]
           \<and> N \<le> 100
           \<and> nearestDouble i n m x \<and> nearestHundredth m x N
           \<and> (\<forall>m2 x2 N2. nearestDouble i n m2 x2 \<and> nearestHundredth m2 x2 N2 \<longrightarrow> N2 = N)
           \<and> progressListener (Progress i n nm (toFixed2 i n)) = Some (m', x')
           \<and> N * 2 ^ x' \<le> m' + 1 \<and> m' \<le> N * 2 ^ x' + 1
           \<and> (if N = 0 then m' = 0 else 46 \<le> x')"
proof -
  define N where "N = hundredths i n"
  define m where "m = fst (divDouble i n)"
  define x where "x = snd (divDouble i n)"
  have le: "N \<le> 100"
    using hundredths_le [OF assms] by (simp add: N_def)
  then have small: "N < 1000"
    by simp
  have shape: "toFixed2 i n = [48 + N div 100, 46, 48 + N div 10 mod 10, 48 + N mod 10]"
    using fixed2_shape [OF small] by (simp add: toFixed2_def N_def)
  have d: "nearestDouble i n m x"
    using divDouble_nearest [OF assms] by (simp add: m_def x_def)
  have h: "nearestHundredth m x N"
    using hundredths_nearest [of i n] by (simp add: m_def x_def N_def)
  have u: "\<forall>m2 x2 N2. nearestDouble i n m2 x2 \<and> nearestHundredth m2 x2 N2 \<longrightarrow> N2 = N"
    using fixed_unique [OF d h] by blast
  have l: "progressListener (Progress i n nm (toFixed2 i n)) = Some (times100 (nearest N 100))"
    using toNumber_fixed [OF small] by (simp add: progressListener_def shape)
  obtain m' x' where t: "times100 (nearest N 100) = (m', x')"
    and b: "N * 2 ^ x' \<le> m' + 1" "m' \<le> N * 2 ^ x' + 1" "if N = 0 then m' = 0 else 46 \<le> x'"
  proof (cases "N = 0")
    case True
    then show ?thesis
      using that [of 0 0] times100_zero by simp
  next
    case False
    then obtain m' x' where "times100 (nearest N 100) = (m', x')"
      and "N * 2 ^ x' \<le> m' + 1" "m' \<le> N * 2 ^ x' + 1" "46 \<le> x'"
      using times100_near [of N] le by auto
    then show ?thesis
      using that [of m' x'] False by simp
  qed
  have l': "progressListener (Progress i n nm (toFixed2 i n)) = Some (m', x')"
    using l t by simp
  show ?thesis
    apply (rule exI [of _ N], rule exI [of _ m], rule exI [of _ x], rule exI [of _ m'],
        rule exI [of _ x'])
    apply (intro conjI)
            apply (rule shape)
           apply (rule le)
          apply (rule d)
         apply (rule h)
        apply (rule u)
       apply (rule l')
      apply (rule b(1))
     apply (rule b(2))
    apply (rule b(3))
    done
qed

lemma toFixed2_one_third: "toFixed2 (Suc 0) 3 = str ''0.33''"
  by (simp add: toFixed2_def hundredths_def divDouble_def roundHalfEven_def Let_def
      binExp.simps fixed2_shape str_def)

lemma toFixed2_two_thirds: "toFixed2 2 3 = str ''0.67''"
  by (simp add: toFixed2_def hundredths_def divDouble_def roundHalfEven_def Let_def
      binExp.simps fixed2_shape str_def)

text \<open>
  Two values for illustration. \<open>3 / 200\<close> is the double just below \<open>0.015\<close>, so it is
  written \<open>0.01\<close>; and the listener's product for \<open>0.07\<close> is the double just above \<open>7\<close>.
\<close>

lemma toFixed2_double_rounding: "toFixed2 3 200 = str ''0.01''"
  by (simp add: toFixed2_def hundredths_def divDouble_def roundHalfEven_def Let_def
      binExp.simps fixed2_shape str_def)

lemma toFixed2_seven: "toFixed2 7 100 = str ''0.07''"
  by (simp add: toFixed2_def hundredths_def divDouble_def roundHalfEven_def Let_def
      binExp.simps fixed2_shape str_def)

lemma toNumber_seven: "toNumber (str ''0.07'') = Some (nearest 7 100)"
  by (simp add: toNumber_def isDigit_def digitsValue_def str_def)

lemma nearest_seven: "nearest 7 100 = (5044031582654956, 56)"
  by (simp add: nearest_def roundHalfEven_def Let_def binExp.simps)

lemma nearest_seven_times: "nearest (100 * 5044031582654956) (2 ^ 56) = (7 * 2 ^ 50 + 1, 50)"
  by (simp add: nearest_def roundHalfEven_def Let_def binExp.simps)

lemma listener_inexact:
  "progressListener (Progress 7 100 nm (str ''0.07'')) = Some (7 * 2 ^ 50 + 1, 50)"
  using nearest_seven_times
  by (simp add: progressListener_def times100_def toNumber_seven nearest_seven)

text \<open>
  C9. Every \<open>database:progress\<close> event that \<open>populateEmptyTables\<close> dispatches, in a run
  that returns and in any part of a run (the loop over the first \<open>j\<close> tables), carries as
  \<open>detail.progress\<close> a string of four code units, a digit, the point and two digits
  \<open>N div 100 . N div 10 mod 10, N mod 10\<close>, where \<open>N / 100\<close> is what \<open>toFixed(2)\<close> writes for
  the double \<open>index / tables.length\<close>: \<open>N\<close> is the integer nearest to a hundred times the
  double nearest to the quotient, and only one \<open>N\<close> is. It is a string, not a number: the
  listener's \<open>event.detail.progress * 100\<close> converts it, and the product is a double within
  \<open>1 / 2 ^ 46\<close> of \<open>N\<close>, not always \<open>N\<close> itself.
\<close>

theorem progress_detail_is_fixed_string:
  assumes "populateLoop k ev (length tables) 1 (take j tables) s = Some (r, s')
           \<or> populateEmptyTables k ev tables s = Some (r, s')"
    and "e \<in> set (dispatchedSince s s')"
    and "e \<noteq> Ready"
  shows "\<exists>i nm N m x m' x'.
           e = Progress i (length tables) nm
                 [48 + N div 100, 46, 48 + N div 10 mod 10, 48 + N mod 10]
           \<and> 1 \<le> i \<and> i \<le> length tables \<and> N \<le> 100
           \<and> nearestDouble i (length tables) m x \<and> nearestHundredth m x N
           \<and> (\<forall>m2 x2 N2. nearestDouble i (length tables) m2 x2 \<and> nearestHundredth m2 x2 N2
                 \<longrightarrow> N2 = N)
           \<and> progressListener e = Some (m', x')
           \<and> N * 2 ^ x' \<le> m' + 1 \<and> m' \<le> N * 2 ^ x' + 1
           \<and> (if N = 0 then m' = 0 else 46 \<le> x')"
proof -
  have "\<exists>j. e \<in> set (progressFrom (length tables) 1 (take j tables))"
    using assms(1)
  proof
    assume "populateLoop k ev (length tables) 1 (take j tables) s = Some (r, s')"
    then show ?thesis
      using populateLoop_dispatched assms(2) by blast
  next
    assume "populateEmptyTables k ev tables s = Some (r, s')"
    then have "e \<in> set (progressFrom (length tables) 1 (take (length tables) tables))"
      using populateEmptyTables_dispatched assms(2,3) by fastforce
    then show ?thesis
      by blast
  qed
  then obtain i nm where i: "1 \<le> i" "i \<le> length tables"
    and e: "e = Progress i (length tables) nm (toFixed2 i (length tables))"
    using progressFrom_take by blast
  have pos: "0 < i"
    using i(1) by simp
  obtain N m x m' x' where sh:
    "toFixed2 i (length tables) = [48 + N div 100, 46, 48 + N div 10 mod 10, 48 + N mod 10]
     \<and> N \<le> 100
     \<and> nearestDouble i (length tables) m x \<and> nearestHundredth m x N
     \<and> (\<forall>m2 x2 N2. nearestDouble i (length tables) m2 x2 \<and> nearestHundredth m2 x2 N2
           \<longrightarrow> N2 = N)
     \<and> progressListener (Progress i (length tables) nm (toFixed2 i (length tables)))
           = Some (m', x')
     \<and> N * 2 ^ x' \<le> m' + 1 \<and> m' \<le> N * 2 ^ x' + 1
     \<and> (if N = 0 then m' = 0 else 46 \<le> x')"
    using progress_shape [OF pos i(2), of nm] by (elim exE) (rule that)
  have e': "e = Progress i (length tables) nm
                  [48 + N div 100, 46, 48 + N div 10 mod 10, 48 + N mod 10]"
    unfolding e using sh by (simp only:)
  have l: "progressListener e = Some (m', x')"
    unfolding e using sh by (elim conjE)
  show ?thesis
    apply (rule exI [of _ i], rule exI [of _ nm], rule exI [of _ N], rule exI [of _ m],
        rule exI [of _ x], rule exI [of _ m'], rule exI [of _ x'])
    apply (intro conjI)
              apply (rule e')
             apply (rule i(1))
            apply (rule i(2))
           apply (rule sh [THEN conjunct2, THEN conjunct1])
          apply (rule sh [THEN conjunct2, THEN conjunct2, THEN conjunct1])
         apply (rule sh [THEN conjunct2, THEN conjunct2, THEN conjunct2, THEN conjunct1])
        apply (rule sh [THEN conjunct2, THEN conjunct2, THEN conjunct2, THEN conjunct2,
          THEN conjunct1])
       apply (rule l)
      apply (rule sh [THEN conjunct2, THEN conjunct2, THEN conjunct2, THEN conjunct2,
          THEN conjunct2, THEN conjunct2, THEN conjunct1])
     apply (rule sh [THEN conjunct2, THEN conjunct2, THEN conjunct2, THEN conjunct2,
          THEN conjunct2, THEN conjunct2, THEN conjunct2, THEN conjunct1])
    apply (rule sh [THEN conjunct2, THEN conjunct2, THEN conjunct2, THEN conjunct2,
          THEN conjunct2, THEN conjunct2, THEN conjunct2, THEN conjunct2])
    done
qed

theorem progress_detail_is_fixed_string_witness:
  "\<exists>s'. populateLoop 1 offline 3 1 (take 2 [pokemonTable, itemTable, pokemonTable]) opened
           = Some (Inr (), s')
         \<and> dispatchedSince opened s'
             = [Progress 1 3 (str ''pokemon'') (str ''0.33''),
                Progress 2 3 (str ''item'') (str ''0.67'')]
         \<and> (\<exists>m x m' x'.
               nearestDouble 2 3 m x \<and> nearestHundredth m x 67
               \<and> progressListener (Progress 2 3 (str ''item'') (str ''0.67'')) = Some (m', x')
               \<and> 67 * 2 ^ x' \<le> m' + 1 \<and> m' \<le> 67 * 2 ^ x' + 1 \<and> 46 \<le> x')"
proof -
  define T where "T = [pokemonTable, itemTable, pokemonTable]"
  have len: "length T = 3"
    by (simp add: T_def)
  have tk: "take 2 T = [pokemonTable, itemTable]"
    by (simp add: T_def)
  have d: "db opened \<noteq> None"
    by (simp add: opened_state)
  have c: "\<forall>t\<in>set [pokemonTable, itemTable].
             chainPages 1 (remote offline) (localeText opened) (root t) (endpoint t) \<noteq> None"
    using offline_chain by blast
  obtain s' where run: "populateLoop 1 offline 3 1 [pokemonTable, itemTable] opened
                          = Some (Inr (), s')"
    using populateLoop_total [OF d c] by blast
  have "populated 3 1 [pokemonTable, itemTable] opened s'"
    using populateLoop_partial [OF d run] by simp
  then have "events (log s') = events (log opened) @ progressFrom 3 1 [pokemonTable, itemTable]"
    by (simp add: populated_def)
  then have "dispatchedSince opened s' = progressFrom 3 1 [pokemonTable, itemTable]"
    by (rule dispatchedSince_append)
  moreover have "Suc (Suc 0) = 2"
    by simp
  ultimately have since: "dispatchedSince opened s'
      = [Progress 1 3 (str ''pokemon'') (str ''0.33''),
         Progress 2 3 (str ''item'') (str ''0.67'')]"
    by (simp add: toFixed2_one_third toFixed2_two_thirds pokemonTable_def itemTable_def)
  let ?e = "Progress 2 3 (str ''item'') (str ''0.67'')"
  have run': "populateLoop 1 offline (length T) 1 (take 2 T) opened = Some (Inr (), s')
              \<or> populateEmptyTables 1 offline T opened = Some (Inr (), s')"
    using run by (simp add: len tk)
  have mem: "?e \<in> set (dispatchedSince opened s')"
    by (simp add: since)
  have ne: "?e \<noteq> Ready"
    by simp
  obtain i nm N m x m' x' where sh:
    "?e = Progress i (length T) nm [48 + N div 100, 46, 48 + N div 10 mod 10, 48 + N mod 10]
     \<and> 1 \<le> i \<and> i \<le> length T \<and> N \<le> 100
     \<and> nearestDouble i (length T) m x \<and> nearestHundredth m x N
     \<and> (\<forall>m2 x2 N2. nearestDouble i (length T) m2 x2 \<and> nearestHundredth m2 x2 N2 \<longrightarrow> N2 = N)
     \<and> progressListener ?e = Some (m', x')
     \<and> N * 2 ^ x' \<le> m' + 1 \<and> m' \<le> N * 2 ^ x' + 1
     \<and> (if N = 0 then m' = 0 else 46 \<le> x')"
    using progress_detail_is_fixed_string [OF run' mem ne] by (elim exE) (rule that)
  have i: "i = 2"
    using sh by simp
  have "48 + N div 100 = 48 \<and> 48 + N div 10 mod 10 = 54 \<and> 48 + N mod 10 = 55"
    using sh by (simp add: str_def)
  then have "N div 100 = 0 \<and> N div 10 mod 10 = 6 \<and> N mod 10 = 7"
    by simp
  then have N: "N = 67"
    using digits_sum [of N] by simp
  have p1: "nearestDouble i (length T) m x"
    using sh by (elim conjE)
  have p2: "nearestHundredth m x N"
    using sh by (elim conjE)
  have p3: "progressListener ?e = Some (m', x')"
    using sh by (elim conjE)
  have p4: "N * 2 ^ x' \<le> m' + 1"
    using sh by (elim conjE)
  have p5: "m' \<le> N * 2 ^ x' + 1"
    using sh by (elim conjE)
  have p6: "if N = 0 then m' = 0 else 46 \<le> x'"
    using sh by (elim conjE)
  have fin: "nearestDouble 2 3 m x \<and> nearestHundredth m x 67
        \<and> progressListener ?e = Some (m', x')
        \<and> 67 * 2 ^ x' \<le> m' + 1 \<and> m' \<le> 67 * 2 ^ x' + 1 \<and> 46 \<le> x'"
    using p1 p2 p3 p4 p5 p6 unfolding i N len by simp
  have run2: "populateLoop 1 offline 3 1 (take 2 [pokemonTable, itemTable, pokemonTable]) opened
                = Some (Inr (), s')"
    using run tk by (simp add: T_def)
  show ?thesis
    apply (rule exI [of _ s'])
    apply (intro conjI)
      apply (rule run2)
     apply (rule since)
    apply (rule exI [of _ m], rule exI [of _ x], rule exI [of _ m'], rule exI [of _ x'])
    apply (rule fin)
    done
qed

end
